theory Spec2Isabelle
  imports Complex_Main "HOL-Library.Sublist"
begin

section \<open>Exceptions\<close>

text \<open>
  The exception classes of \<^verbatim>\<open>libkirk/sut.py\<close> and \<^verbatim>\<open>libkirk/scheduler.py\<close>, together with
  the exceptions of the Python runtime that the modelled code raises, catches or lets
  through. \<^verbatim>\<open>SUTError\<close> and \<^verbatim>\<open>ValueError\<close> carry their message. \<^verbatim>\<open>KernelPanicError\<close>
  derives from \<^verbatim>\<open>SUTError\<close>, and every class of libkirk derives from \<^verbatim>\<open>KirkException\<close>;
  the two asyncio exceptions and \<^verbatim>\<open>ValueError\<close> do not.
\<close>

datatype error =
    KirkException
  | SUTError string
  | KernelPanicError
  | KernelTaintedError
  | KernelTimeoutError
  | TimeoutError
  | CancelledError
  | ValueError string
  | OtherError

fun is_KirkException :: "error \<Rightarrow> bool" where
  "is_KirkException KirkException = True"
| "is_KirkException (SUTError m) = True"
| "is_KirkException KernelPanicError = True"
| "is_KirkException KernelTaintedError = True"
| "is_KirkException KernelTimeoutError = True"
| "is_KirkException TimeoutError = False"
| "is_KirkException CancelledError = False"
| "is_KirkException (ValueError m) = False"
| "is_KirkException OtherError = False"

section \<open>Awaited calls and asyncio.wait_for\<close>

text \<open>
  What the SUT does is not decided by the code under study, so every call into it is an
  input of the model: the value it returns (\<open>Inr\<close>) or the exception it raises (\<open>Inl\<close>).
  A call that is awaited under \<^verbatim>\<open>asyncio.wait_for\<close> also has the time it needs;
  \<^verbatim>\<open>wait_for\<close> raises \<^verbatim>\<open>TimeoutError\<close> when that time exceeds the timeout and passes the
  outcome on otherwise.
\<close>

record 'a awaited =
  duration :: real
  outcome :: "error + 'a"

definition wait_for :: "'a awaited \<Rightarrow> real \<Rightarrow> error + 'a" where
  "wait_for aw t = (if t < duration aw then Inl TimeoutError else outcome aw)"

text \<open>The record returned by \<^verbatim>\<open>run_command\<close>.\<close>

record command_result =
  command :: string
  stdout :: string
  returncode :: int
  exec_time :: real

section \<open>Strings\<close>

text \<open>
  Python strings are modelled as lists of 8-bit characters (a character outside ASCII by
  its UTF-8 bytes). \<^verbatim>\<open>str.strip\<close>, \<^verbatim>\<open>str.rstrip\<close> and the regular expression class
  \<^verbatim>\<open>\s\<close> remove or match the ASCII whitespace characters; \<^verbatim>\<open>str.isdigit\<close> and \<^verbatim>\<open>\d\<close>
  accept the ASCII digits.
\<close>

definition is_space :: "char \<Rightarrow> bool" where
  "is_space c = (c \<in> set [CHR '' '', CHR 0x09, CHR 0x0A, CHR 0x0B, CHR 0x0C, CHR 0x0D,
                           CHR 0x1C, CHR 0x1D, CHR 0x1E, CHR 0x1F])"

definition is_digit :: "char \<Rightarrow> bool" where
  "is_digit c = (c \<in> set ''0123456789'')"

definition lstrip :: "string \<Rightarrow> string" where
  "lstrip s = dropWhile is_space s"

definition rstrip :: "string \<Rightarrow> string" where
  "rstrip s = rev (dropWhile is_space (rev s))"

definition strip :: "string \<Rightarrow> string" where
  "strip s = rstrip (lstrip s)"

definition isdigit :: "string \<Rightarrow> bool" where
  "isdigit s = (s \<noteq> [] \<and> list_all is_digit s)"

definition digit_value :: "char \<Rightarrow> nat" where
  "digit_value c = of_char c - 48"

text \<open>\<^verbatim>\<open>int(code)\<close> for a string of digits.\<close>

definition int_of_string :: "string \<Rightarrow> nat" where
  "int_of_string s = foldl (\<lambda>n c. 10 * n + digit_value c) 0 s"

text \<open>\<^verbatim>\<open>s.startswith(pre)\<close>, \<^verbatim>\<open>sub in s\<close> and the slice \<^verbatim>\<open>s[-n:]\<close> (for \<open>n > 0\<close>).\<close>

definition startswith :: "string \<Rightarrow> string \<Rightarrow> bool" where
  "startswith s pre = (take (length pre) s = pre)"

fun contains :: "string \<Rightarrow> string \<Rightarrow> bool" where
  "contains sub [] = (sub = [])"
| "contains sub (c # cs) = (take (length sub) (c # cs) = sub \<or> contains sub cs)"

definition last_chars :: "nat \<Rightarrow> string \<Rightarrow> string" where
  "last_chars n s = drop (length s - n) s"

section \<open>SUT.ensure_communicate\<close>

text \<open>
  The session of an abstract SUT is driven through \<^verbatim>\<open>communicate\<close> and \<^verbatim>\<open>stop\<close>. The
  \<open>k\<close>-th call of either one, counted from 0, returns (\<open>None\<close>) or raises (\<open>Some err\<close>).
  The calls made are recorded in order.
\<close>

datatype call = Communicate | Stop

record session_io =
  communicate_r :: "nat \<Rightarrow> error option"
  stop_r :: "nat \<Rightarrow> error option"

text \<open>
  \<^verbatim>\<open>for retry in range(retries)\<close>: the third argument counts the iterations that are left,
  the fourth is \<^verbatim>\<open>retry\<close>. The result is the calls made and the exception raised, if any.
  Only a \<^verbatim>\<open>KirkException\<close> is caught.
\<close>

fun communicate_loop :: "session_io \<Rightarrow> int \<Rightarrow> nat \<Rightarrow> nat \<Rightarrow> call list \<times> error option" where
  "communicate_loop io retries 0 retry = ([], None)"
| "communicate_loop io retries (Suc left) retry =
     (case communicate_r io retry of
        None \<Rightarrow> ([Communicate], None)
      | Some err \<Rightarrow>
          if is_KirkException err then
            if int retry \<ge> retries - 1 then ([Communicate], Some err)
            else
              (case stop_r io retry of
                 Some err' \<Rightarrow> ([Communicate, Stop], Some err')
               | None \<Rightarrow>
                   (case communicate_loop io retries left (Suc retry) of
                      (calls, r) \<Rightarrow> (Communicate # Stop # calls, r)))
          else ([Communicate], Some err))"

definition ensure_communicate :: "session_io \<Rightarrow> int \<Rightarrow> call list \<times> error option" where
  "ensure_communicate io retries0 =
     (let retries = max retries0 1 in communicate_loop io retries (nat retries) 0)"

section \<open>SUT.get_info\<close>

record sut_info =
  distro :: string
  distro_ver :: string
  kernel :: string
  arch :: string
  cpu :: string
  ram :: string
  swap :: string

text \<open>
  The nested \<^verbatim>\<open>_run_cmd\<close>: the argument is the awaited \<^verbatim>\<open>self.run_command(cmd)\<close>, which is
  given 1.5 seconds. Only \<^verbatim>\<open>asyncio.TimeoutError\<close> is caught.
\<close>

definition run_cmd :: "command_result awaited \<Rightarrow> error + string" where
  "run_cmd probe =
     (case wait_for probe (3 / 2) of
        Inr ret \<Rightarrow> Inr (if returncode ret = 0 then rstrip (stdout ret) else ''unknown'')
      | Inl err \<Rightarrow> if err = TimeoutError then Inr ''unknown'' else Inl err)"

text \<open>\<^verbatim>\<open>asyncio.gather\<close>: the values in the order of the calls, or an exception one of them raised.\<close>

fun gather :: "(error + 'a) list \<Rightarrow> error + 'a list" where
  "gather [] = Inr []"
| "gather (r # rs) =
     (case r of
        Inl err \<Rightarrow> Inl err
      | Inr v \<Rightarrow> (case gather rs of Inl err \<Rightarrow> Inl err | Inr vs \<Rightarrow> Inr (v # vs)))"

text \<open>
  \<^verbatim>\<open>re.search(key + r'\s+(?P<g>\d+\s+kB)', s)\<close> for a literal \<open>key\<close>, giving the group.
  Whitespace and digits are disjoint classes, so at each start position the greedy runs
  are the only way to match.
\<close>

definition match_total_kb :: "string \<Rightarrow> string \<Rightarrow> string option" where
  "match_total_kb key s =
     (if startswith s key then
        let s1 = drop (length key) s;
            s2 = dropWhile is_space s1;
            digits = takeWhile is_digit s2;
            s3 = dropWhile is_digit s2;
            spaces = takeWhile is_space s3;
            s4 = dropWhile is_space s3
        in if takeWhile is_space s1 \<noteq> [] \<and> digits \<noteq> [] \<and> spaces \<noteq> [] \<and> startswith s4 ''kB''
           then Some (digits @ spaces @ ''kB'') else None
      else None)"

fun search_total_kb :: "string \<Rightarrow> string \<Rightarrow> string option" where
  "search_total_kb key [] = match_total_kb key []"
| "search_total_kb key (c # cs) =
     (case match_total_kb key (c # cs) of
        Some found \<Rightarrow> Some found
      | None \<Rightarrow> search_total_kb key cs)"

text \<open>The six commands that \<^verbatim>\<open>get_info\<close> runs, in the order of the source.\<close>

record info_probes =
  probe_distro :: "command_result awaited"
  probe_distro_ver :: "command_result awaited"
  probe_kernel :: "command_result awaited"
  probe_arch :: "command_result awaited"
  probe_cpu :: "command_result awaited"
  probe_meminfo :: "command_result awaited"

definition get_info :: "info_probes \<Rightarrow> error + sut_info" where
  "get_info probes =
     (case gather (map run_cmd [probe_distro probes, probe_distro_ver probes, probe_kernel probes,
                                probe_arch probes, probe_cpu probes, probe_meminfo probes]) of
        Inl err \<Rightarrow> Inl err
      | Inr outs \<Rightarrow>
          let meminfo = outs ! 5;
              memory = (if meminfo \<noteq> [] then
                          (case search_total_kb ''MemTotal:'' meminfo of
                             Some found \<Rightarrow> found | None \<Rightarrow> ''unknown'')
                        else ''unknown'');
              swap_total = (if meminfo \<noteq> [] then
                        (case search_total_kb ''SwapTotal:'' meminfo of
                           Some found \<Rightarrow> found | None \<Rightarrow> ''unkown'')
                      else ''unkown'')
          in Inr \<lparr>distro = outs ! 0, distro_ver = outs ! 1, kernel = outs ! 2, arch = outs ! 3,
                  cpu = outs ! 4, ram = memory, swap = swap_total\<rparr>)"

section \<open>SUT.get_tainted_info\<close>

definition TAINTED_MSG :: "string list" where
  "TAINTED_MSG = [
    ''proprietary module was loaded'',
    ''module was force loaded'',
    ''kernel running on an out of specification system'',
    ''module was force unloaded'',
    ''processor reported a Machine Check Exception (MCE)'',
    ''bad page referenced or some unexpected page flags'',
    ''taint requested by userspace application'',
    ''kernel died recently, i.e. there was an OOPS or BUG'',
    ''ACPI table overridden by user'',
    ''kernel issued warning'',
    ''staging driver was loaded'',
    ''workaround for bug in platform firmware applied'',
    ''externally-built ('' @ [CHR 0xE2, CHR 0x80, CHR 0x9C] @ ''out-of-tree''
       @ [CHR 0xE2, CHR 0x80, CHR 0x9D] @ '') module was loaded'',
    ''unsigned module was loaded'',
    ''soft lockup occurred'',
    ''kernel has been live patched'',
    ''auxiliary taint, defined for and used by distros'',
    ''kernel was built with the struct randomization plugin'']"

text \<open>
  \<^verbatim>\<open>format(code, f"0{width}b")\<close>: the binary digits of \<open>code\<close>, most significant first,
  padded with zeros on the left to at least \<open>width\<close> characters. \<open>binary_digits\<close> gives the
  digits least significant first.
\<close>

fun binary_digits :: "nat \<Rightarrow> string" where
  "binary_digits n =
     (if n = 0 then [] else (if odd n then CHR ''1'' else CHR ''0'') # binary_digits (n div 2))"

declare binary_digits.simps [simp del]

definition format_binary :: "nat \<Rightarrow> nat \<Rightarrow> string" where
  "format_binary n width =
     (let digits = (if n = 0 then ''0'' else rev (binary_digits n))
      in replicate (width - length digits) CHR ''0'' @ digits)"

text \<open>The decoding loop of \<^verbatim>\<open>get_tainted_info\<close>; \<^verbatim>\<open>[::-1]\<close> is \<open>rev\<close>.\<close>

definition tainted_messages :: "nat \<Rightarrow> string list" where
  "tainted_messages code =
     (let tainted_num = length TAINTED_MSG;
          bits = rev (format_binary code tainted_num)
      in foldl (\<lambda>messages i. if bits ! i = CHR ''1'' then messages @ [TAINTED_MSG ! i] else messages)
           [] [0..<tainted_num])"

text \<open>
  The class attributes \<^verbatim>\<open>_tainted_lock\<close> (is it held by another caller) and
  \<^verbatim>\<open>_tainted_status\<close> (a queue of at most one element).
\<close>

record tainted_cache =
  tainted_lock :: bool
  tainted_status :: "(nat \<times> string list) option"

text \<open>The second argument is the outcome of \<^verbatim>\<open>run_command("cat /proc/sys/kernel/tainted")\<close>.\<close>

definition get_tainted_info ::
  "tainted_cache \<Rightarrow> error + command_result \<Rightarrow> tainted_cache \<times> (error + nat \<times> string list)" where
  "get_tainted_info c run =
     (case (tainted_lock c, tainted_status c) of
        (True, Some cached) \<Rightarrow> (c\<lparr>tainted_status := None\<rparr>, Inr cached)
      | _ \<Rightarrow>
        (case run of
           Inl err \<Rightarrow> (c, Inl err)
         | Inr ret \<Rightarrow>
             if returncode ret \<noteq> 0 then
               (c, Inl (SUTError ''Can't read tainted kernel information''))
             else
               let code = strip (stdout ret) in
               if \<not> isdigit code then (c, Inl (SUTError code))
               else
                 let code = int_of_string code;
                     messages = tainted_messages code
                 in (c\<lparr>tainted_status := Some (code, messages)\<rparr>, Inr (code, messages))))"

section \<open>HostSUT.run_command\<close>

definition BUFFSIZE :: nat where
  "BUFFSIZE = 1024"

text \<open>
  The spawned process, as seen by \<^verbatim>\<open>run_command\<close>: its process id, the chunk of at most
  \<open>BUFFSIZE\<close> bytes (decoded) that the \<open>k\<close>-th \<^verbatim>\<open>proc.stdout.read\<close> returns, whether
  \<^verbatim>\<open>_process_alive\<close> holds after that read, its return code and the measured run time.
\<close>

record process =
  pid :: nat
  read_r :: "nat \<Rightarrow> string"
  alive_r :: "nat \<Rightarrow> bool"
  proc_returncode :: int
  run_time :: real

record host_sut =
  running :: bool
  procs :: "nat list"

datatype os_call = Killpg nat | Wait nat

text \<open>The optional sink: \<open>None\<close> when no \<^verbatim>\<open>iobuffer\<close> is given, else what was written to it.\<close>

definition iobuffer_write :: "string list option \<Rightarrow> string \<Rightarrow> string list option" where
  "iobuffer_write iobuffer sline =
     (case iobuffer of None \<Rightarrow> None | Some written \<Rightarrow> Some (written @ [sline]))"

text \<open>
  The \<^verbatim>\<open>while True\<close> loop, from the \<open>k\<close>-th read on. It ends when the process is found
  dead; for a process that stays alive it does not return, which is the value \<open>None\<close>.
\<close>

partial_function (option) read_output ::
  "process \<Rightarrow> string list option \<Rightarrow> nat \<Rightarrow> string \<Rightarrow> bool
     \<Rightarrow> (string list option \<times> string \<times> bool) option" where
  "read_output proc iobuffer k out panic =
     (let sline = read_r proc k;
          iobuffer = iobuffer_write iobuffer sline;
          out = out @ sline;
          panic = contains ''Kernel panic'' (last_chars (2 * BUFFSIZE) out)
      in if \<not> alive_r proc k then Some (iobuffer, out, panic)
         else read_output proc iobuffer (Suc k) out panic)"

text \<open>
  The last argument is the outcome of \<^verbatim>\<open>asyncio.create_subprocess_shell\<close>. The result
  holds the SUT afterwards, the calls made on the process once the loop has ended
  (\<^verbatim>\<open>proc.wait()\<close>, then the \<^verbatim>\<open>finally\<close> clause), the sink, and the record returned or the
  exception raised.
\<close>

definition run_command ::
  "host_sut \<Rightarrow> string \<Rightarrow> string list option \<Rightarrow> error + process
     \<Rightarrow> (host_sut \<times> os_call list \<times> string list option \<times> (error + command_result)) option" where
  "run_command sut cmd iobuffer spawn =
     (if cmd = [] then Some (sut, [], iobuffer, Inl (ValueError ''command is empty''))
      else if \<not> running sut then Some (sut, [], iobuffer, Inl (SUTError ''SUT is not running''))
      else
        (case spawn of
           Inl err \<Rightarrow> Some (sut, [], iobuffer, Inl err)
         | Inr proc \<Rightarrow>
             (case read_output proc iobuffer 0 [] False of
                None \<Rightarrow> None
              | Some (iobuffer', out, panic) \<Rightarrow>
                  let sut' = sut\<lparr>procs := remove1 (pid proc) (procs sut @ [pid proc])\<rparr>;
                      ret = \<lparr>command = cmd, stdout = out, returncode = proc_returncode proc,
                             exec_time = run_time proc\<rparr>
                  in Some (sut', [Wait (pid proc), Killpg (pid proc), Wait (pid proc)], iobuffer',
                           if panic then Inl KernelPanicError else Inr ret))))"

section \<open>Tests, suites and results\<close>

text \<open>
  \<^verbatim>\<open>Test\<close>, \<^verbatim>\<open>Suite\<close>, \<^verbatim>\<open>TestResults\<close> and \<^verbatim>\<open>SuiteResults\<close>, with the attributes that the
  schedulers read and the keyword arguments they construct them with. Where two classes
  share an attribute name, the later record prefixes it.
\<close>

record test =
  name :: string
  full_command :: string
  cwd :: string
  env :: "(string \<times> string) list"
  parallelizable :: bool

record suite =
  suite_name :: string
  tests :: "test list"

record test_results =
  test :: test
  failed :: int
  passed :: int
  broken :: int
  skipped :: int
  warnings :: int
  res_exec_time :: real
  retcode :: int
  res_stdout :: string

record suite_results =
  suite :: suite
  sr_tests :: "test_results list"
  sr_distro :: string
  sr_distro_ver :: string
  sr_kernel :: string
  sr_arch :: string
  sr_cpu :: string
  sr_swap :: string
  sr_ram :: string

text \<open>The events fired through \<^verbatim>\<open>libkirk.events.fire\<close>, with their arguments.\<close>

datatype event =
    Test_started test
  | Kernel_tainted string
  | Kernel_tainted_msgs "string list"
  | Kernel_panic
  | Sut_not_responding
  | Test_completed test_results
  | Suite_started suite
  | Sut_restart string
  | Suite_timeout suite real
  | Suite_completed suite_results real

section \<open>TestScheduler\<close>

text \<open>
  The attributes \<^verbatim>\<open>_results\<close> and \<^verbatim>\<open>_stop\<close> of a \<^verbatim>\<open>TestScheduler\<close>. The events fired are
  kept with them, in firing order; both schedulers fire into this one list.
\<close>

record test_scheduler =
  results :: "test_results list"
  stop :: bool
  fired :: "event list"

definition fire :: "event \<Rightarrow> test_scheduler \<Rightarrow> test_scheduler" where
  "fire ev s = s\<lparr>fired := fired s @ [ev]\<rparr>"

text \<open>
  The constructor arguments: the test timeout, \<^verbatim>\<open>force_parallel\<close>, the framework's
  \<^verbatim>\<open>read_result\<close>, and, for the \<^verbatim>\<open>SuiteScheduler\<close>, the suite timeout and the name of the
  SUT.
\<close>

record config =
  timeout :: real
  force_parallel :: bool
  read_result :: "test \<Rightarrow> string \<Rightarrow> int \<Rightarrow> real \<Rightarrow> test_results"
  suite_timeout :: real
  sut_name :: string

datatype status = STATUS_OK | TEST_TIMEOUT | KERNEL_PANIC | KERNEL_TAINTED | KERNEL_TIMEOUT

text \<open>
  What the SUT does during one run of \<^verbatim>\<open>_run_test\<close>, call by call: the two commands of
  \<^verbatim>\<open>_write_kmsg\<close>, \<^verbatim>\<open>get_tainted_info\<close> before the command, the command itself,
  \<^verbatim>\<open>get_tainted_info\<close> after it, and \<^verbatim>\<open>ping\<close>; with them the text that has reached the
  \<^verbatim>\<open>RedirectTestStdout\<close> buffer when the \<^verbatim>\<open>try\<close> statement is left, and the time
  \<^verbatim>\<open>time.time() - start_t\<close> read in an exception handler. A task that is cancelled while
  it awaits a call sees that call raise \<^verbatim>\<open>CancelledError\<close>.
\<close>

record attempt_io =
  kmsg_id :: "error + command_result"
  kmsg_echo :: "error + command_result"
  tainted_before :: "error + nat \<times> string list"
  command_run :: "command_result awaited"
  streamed :: string
  tainted_after :: "error + nat \<times> string list"
  ping_run :: "real awaited"
  elapsed :: real

definition write_kmsg :: "attempt_io \<Rightarrow> error option" where
  "write_kmsg io =
     (case kmsg_id io of
        Inl err \<Rightarrow> Some err
      | Inr ret \<Rightarrow>
          if stdout ret \<noteq> ''0'' @ [CHR 0x0A] then None
          else (case kmsg_echo io of Inl err \<Rightarrow> Some err | Inr ret' \<Rightarrow> None))"

definition get_tainted_status ::
  "error + nat \<times> string list \<Rightarrow> test_scheduler
     \<Rightarrow> test_scheduler \<times> (error + nat \<times> string list)" where
  "get_tainted_status info s =
     (case info of
        Inl err \<Rightarrow> (s, Inl err)
      | Inr (code, messages) \<Rightarrow>
          (foldl (\<lambda>s msg. if msg \<noteq> [] then fire (Kernel_tainted msg) s else s) s messages,
           Inr (code, messages)))"

text \<open>The local variables of \<^verbatim>\<open>_run_test\<close> that are set by its \<^verbatim>\<open>try\<close> statement.\<close>

record attempt_outcome =
  status :: status
  test_data :: "command_result option"
  tainted_msg :: "string list option"
  exec_t :: real

text \<open>The body of the \<^verbatim>\<open>try\<close> statement.\<close>

definition try_command ::
  "real \<Rightarrow> attempt_io \<Rightarrow> test_scheduler \<Rightarrow> test_scheduler \<times> (error + attempt_outcome)" where
  "try_command tmo io s =
     (case get_tainted_status (tainted_before io) s of
        (s1, Inl err) \<Rightarrow> (s1, Inl err)
      | (s1, Inr (tainted_code1, msgs1)) \<Rightarrow>
          (case wait_for (command_run io) tmo of
             Inl err \<Rightarrow> (s1, Inl err)
           | Inr data \<Rightarrow>
               (case get_tainted_status (tainted_after io) s1 of
                  (s2, Inl err) \<Rightarrow> (s2, Inl err)
                | (s2, Inr (tainted_code2, tainted_msg2)) \<Rightarrow>
                    if tainted_code2 \<noteq> tainted_code1 then
                      (s2, Inr \<lparr>status = KERNEL_TAINTED, test_data = Some data,
                                tainted_msg = Some tainted_msg2, exec_t = 0\<rparr>)
                    else
                      (s2, Inr \<lparr>status = STATUS_OK, test_data = Some data,
                                tainted_msg = None, exec_t = 0\<rparr>))))"

text \<open>
  The \<^verbatim>\<open>try\<close> statement with its two handlers. An exception that no handler catches, or
  that \<^verbatim>\<open>ping\<close> raises inside the second handler (other than the timeout of its
  \<^verbatim>\<open>wait_for\<close>), leaves \<^verbatim>\<open>_run_test\<close>.
\<close>

definition classify ::
  "real \<Rightarrow> attempt_io \<Rightarrow> test_scheduler \<Rightarrow> test_scheduler \<times> (error + attempt_outcome)" where
  "classify tmo io s =
     (case try_command tmo io s of
        (s', Inr out) \<Rightarrow> (s', Inr out)
      | (s', Inl err) \<Rightarrow>
          if err = KernelPanicError then
            (s', Inr \<lparr>status = KERNEL_PANIC, test_data = None, tainted_msg = None,
                      exec_t = elapsed io\<rparr>)
          else if err = TimeoutError then
            (case wait_for (ping_run io) 10 of
               Inr reply_t \<Rightarrow>
                 (s', Inr \<lparr>status = TEST_TIMEOUT, test_data = None, tainted_msg = None,
                           exec_t = elapsed io\<rparr>)
             | Inl err' \<Rightarrow>
                 if err' = TimeoutError then
                   (s', Inr \<lparr>status = KERNEL_TIMEOUT, test_data = None, tainted_msg = None,
                             exec_t = elapsed io\<rparr>)
                 else (s', Inl err'))
          else (s', Inl err))"

text \<open>
  The dictionary that \<^verbatim>\<open>read_result\<close> is given: the synthetic one unless the status is
  \<^verbatim>\<open>STATUS_OK\<close> or \<^verbatim>\<open>KERNEL_TAINTED\<close>. Subscripting \<^verbatim>\<open>None\<close> raises a \<^verbatim>\<open>TypeError\<close>.
\<close>

definition result_data :: "attempt_io \<Rightarrow> test \<Rightarrow> attempt_outcome \<Rightarrow> error + command_result" where
  "result_data io t out =
     (if status out \<notin> set [STATUS_OK, KERNEL_TAINTED] then
        Inr \<lparr>command = full_command t, stdout = streamed io, returncode = - 1,
             exec_time = exec_t out\<rparr>
      else (case test_data out of None \<Rightarrow> Inl OtherError | Some data \<Rightarrow> Inr data))"

text \<open>
  \<^verbatim>\<open>_run_test\<close> under its semaphore: the scheduler afterwards and the exception raised, if
  any.
\<close>

definition run_test ::
  "config \<Rightarrow> attempt_io \<Rightarrow> test \<Rightarrow> test_scheduler \<Rightarrow> test_scheduler \<times> error option" where
  "run_test cfg io t s =
     (if stop s then (s, None)
      else
        let s = fire (Test_started t) s in
        (case write_kmsg io of
           Some err \<Rightarrow> (s, Some err)
         | None \<Rightarrow>
             (case classify (timeout cfg) io s of
                (s, Inl err) \<Rightarrow> (s, Some err)
              | (s, Inr out) \<Rightarrow>
                  (case result_data io t out of
                     Inl err \<Rightarrow> (s, Some err)
                   | Inr data \<Rightarrow>
                       let res = read_result cfg t (stdout data) (returncode data) (exec_time data);
                           s = s\<lparr>results := results s @ [res]\<rparr>
                       in if status out = KERNEL_TAINTED then
                            (fire (Kernel_tainted_msgs (case tainted_msg out of
                                                          None \<Rightarrow> [] | Some msgs \<Rightarrow> msgs)) s,
                             Some KernelTaintedError)
                          else if status out = KERNEL_PANIC then
                            (fire Kernel_panic s, Some KernelPanicError)
                          else if status out = KERNEL_TIMEOUT then
                            (fire Sut_not_responding s, Some KernelTimeoutError)
                          else (fire (Test_completed res) s, None)))))"

text \<open>
  What happens during one call of \<^verbatim>\<open>TestScheduler.schedule\<close>: what the SUT does while
  each test runs, and how the tasks of the parallel batch interleave. The tasks touch
  the scheduler only where they append their result and fire events, so an interleaving
  is given by the order in which the tasks reach the end of \<^verbatim>\<open>_run_test\<close>
  (\<open>finish_rank\<close>). Once a task has raised, \<^verbatim>\<open>asyncio.gather\<close> passes the exception on and
  the other tasks are cancelled; \<open>finishes_anyway\<close> tells which of them still reach
  their end before that. A task that is cancelled earlier leaves no trace.
\<close>

record schedule_io =
  attempt :: "test \<Rightarrow> attempt_io"
  finish_rank :: "test \<Rightarrow> nat"
  finishes_anyway :: "test \<Rightarrow> bool"

text \<open>\<^verbatim>\<open>_run_and_wait\<close>: one task after the other, each awaited before the next is created.\<close>

fun run_and_wait ::
  "config \<Rightarrow> schedule_io \<Rightarrow> test list \<Rightarrow> test_scheduler \<Rightarrow> test_scheduler \<times> error option" where
  "run_and_wait cfg io [] s = (s, None)"
| "run_and_wait cfg io (t # ts) s =
     (case run_test cfg (attempt io t) t s of
        (s', Some err) \<Rightarrow> (s', Some err)
      | (s', None) \<Rightarrow> run_and_wait cfg io ts s')"

text \<open>
  The tasks of \<^verbatim>\<open>_run_parallel\<close> in the order in which they finish; \<open>raised\<close> is the
  first exception raised so far, which is the one that \<^verbatim>\<open>asyncio.gather\<close> raises.
\<close>

fun finish_tasks ::
  "config \<Rightarrow> schedule_io \<Rightarrow> test list \<Rightarrow> error option \<Rightarrow> test_scheduler
     \<Rightarrow> test_scheduler \<times> error option" where
  "finish_tasks cfg io [] raised s = (s, raised)"
| "finish_tasks cfg io (t # ts) raised s =
     (if raised \<noteq> None \<and> \<not> finishes_anyway io t then finish_tasks cfg io ts raised s
      else
        (case run_test cfg (attempt io t) t s of
           (s', r) \<Rightarrow> finish_tasks cfg io ts (if raised = None then r else raised) s'))"

definition run_parallel ::
  "config \<Rightarrow> schedule_io \<Rightarrow> test list \<Rightarrow> test_scheduler \<Rightarrow> test_scheduler \<times> error option" where
  "run_parallel cfg io ts s = finish_tasks cfg io (sort_key (finish_rank io) ts) None s"

text \<open>
  \<^verbatim>\<open>TestScheduler.schedule\<close>. A \<^verbatim>\<open>KirkException\<close> or a \<^verbatim>\<open>CancelledError\<close> is raised again
  unless a stop was requested; any other exception passes through.
\<close>

definition schedule ::
  "config \<Rightarrow> schedule_io \<Rightarrow> test list \<Rightarrow> test_scheduler \<Rightarrow> test_scheduler \<times> error option" where
  "schedule cfg io jobs s =
     (if jobs = [] then (s, Some (ValueError ''jobs list is empty''))
      else
        let s = s\<lparr>results := []\<rparr>;
            (s, raised) =
              (if force_parallel cfg then run_parallel cfg io jobs s
               else
                 (case run_parallel cfg io (filter parallelizable jobs) s of
                    (s, Some err) \<Rightarrow> (s, Some err)
                  | (s, None) \<Rightarrow>
                      run_and_wait cfg io (filter (\<lambda>t. \<not> parallelizable t) jobs) s))
        in (case raised of
              None \<Rightarrow> (s, None)
            | Some err \<Rightarrow>
                if is_KirkException err \<or> err = CancelledError then
                  (if \<not> stop s then (s, Some err) else (s, None))
                else (s, Some err)))"

section \<open>SuiteScheduler\<close>

text \<open>
  The attributes \<^verbatim>\<open>_results\<close>, \<^verbatim>\<open>_stop\<close> and \<^verbatim>\<open>_scheduler\<close> of a \<^verbatim>\<open>SuiteScheduler\<close>.
\<close>

record suite_scheduler =
  suite_results :: "suite_results list"
  suite_stop :: bool
  scheduler :: test_scheduler

text \<open>
  What happens during one call of \<^verbatim>\<open>_run_suite\<close>: the probes of \<^verbatim>\<open>get_info\<close>; for the
  \<open>k\<close>-th iteration of the loop, what happens during its call of
  \<^verbatim>\<open>TestScheduler.schedule\<close> and the time measured for it; and for a restart in that
  iteration, what \<^verbatim>\<open>sut.stop\<close> and then the session calls of \<^verbatim>\<open>ensure_communicate\<close> do.
\<close>

record suite_io =
  probes :: info_probes
  schedule_r :: "nat \<Rightarrow> schedule_io"
  schedule_time :: "nat \<Rightarrow> real"
  restart_stop :: "nat \<Rightarrow> error option"
  restart_session :: "nat \<Rightarrow> session_io"

text \<open>
  \<^verbatim>\<open>_restart_sut\<close>. \<^verbatim>\<open>self._scheduler.stop()\<close> returns at once, because \<^verbatim>\<open>schedule\<close> has
  emptied the task list in its \<^verbatim>\<open>finally\<close> clause.
\<close>

definition restart_sut ::
  "config \<Rightarrow> suite_io \<Rightarrow> nat \<Rightarrow> test_scheduler \<Rightarrow> test_scheduler \<times> error option" where
  "restart_sut cfg io k s =
     (let s = fire (Sut_restart (sut_name cfg)) s in
      (case restart_stop io k of
         Some err \<Rightarrow> (s, Some err)
       | None \<Rightarrow> (s, snd (ensure_communicate (restart_session io k) 10))))"

text \<open>
  \<^verbatim>\<open>asyncio.wait_for(self._scheduler.schedule(tests_left), timeout=self._suite_timeout)\<close>.
  When the suite timeout expires, \<^verbatim>\<open>wait_for\<close> cancels the call; the tasks under way see
  \<^verbatim>\<open>CancelledError\<close>, \<^verbatim>\<open>schedule\<close> raises it again, and \<^verbatim>\<open>wait_for\<close> turns it into
  \<^verbatim>\<open>TimeoutError\<close>. Without a stop request nothing else cancels the call.
\<close>

definition wait_for_schedule :: "error option \<Rightarrow> error option" where
  "wait_for_schedule raised = (if raised = Some CancelledError then Some TimeoutError else raised)"

text \<open>The local variables of \<^verbatim>\<open>_run_suite\<close>.\<close>

record suite_run =
  timed_out :: bool
  exec_times :: "real list"
  tests_results :: "test_results list"
  tests_left :: "test list"

text \<open>The \<^verbatim>\<open>TestResults\<close> given to a test that is left when the suite has timed out.\<close>

definition skipped_result :: "test \<Rightarrow> test_results" where
  "skipped_result t =
     \<lparr>test = t, failed = 0, passed = 0, broken = 0, skipped = 1, warnings = 0,
      res_exec_time = 0, retcode = 32, res_stdout = ''''\<rparr>"

text \<open>The tests of the suite whose name is not found among the results.\<close>

definition not_found :: "test list \<Rightarrow> test_results list \<Rightarrow> test list" where
  "not_found ts rs = filter (\<lambda>t. \<not> list_ex (\<lambda>test_res. name t = name (test test_res)) rs) ts"

definition is_kernel_error :: "error \<Rightarrow> bool" where
  "is_kernel_error err = (err \<in> set [KernelPanicError, KernelTaintedError, KernelTimeoutError])"

text \<open>
  One iteration of the \<^verbatim>\<open>while\<close> loop, up to the end of the inner \<^verbatim>\<open>try\<close> statement: the
  call of \<^verbatim>\<open>schedule\<close>, the two handlers and the \<^verbatim>\<open>finally\<close> clause. The result holds the
  exception that leaves the statement, if any.
\<close>

definition schedule_tests ::
  "config \<Rightarrow> suite_io \<Rightarrow> suite \<Rightarrow> nat \<Rightarrow> suite_run \<Rightarrow> test_scheduler
     \<Rightarrow> suite_run \<times> test_scheduler \<times> error option" where
  "schedule_tests cfg io su k run s =
     (case schedule cfg (schedule_r io k) (tests_left run) s of
        (s, raised) \<Rightarrow>
          (case (case wait_for_schedule raised of
                   None \<Rightarrow> (run\<lparr>exec_times := exec_times run @ [schedule_time io k]\<rparr>, s, None)
                 | Some err \<Rightarrow>
                     if err = TimeoutError then
                       (run\<lparr>timed_out := True\<rparr>, fire (Suite_timeout su (suite_timeout cfg)) s, None)
                     else if is_kernel_error err then
                       (case restart_sut cfg io k s of (s, r) \<Rightarrow> (run, s, r))
                     else (run, s, Some err)) of
             (run, s, r) \<Rightarrow> (run\<lparr>tests_results := tests_results run @ results s\<rparr>, s, r)))"

text \<open>
  The \<^verbatim>\<open>while\<close> loop from its \<open>k\<close>-th iteration on. The loop can go on for ever (a kernel
  error that comes with no new result leaves \<^verbatim>\<open>tests_left\<close> as it was), so the first
  argument bounds the number of iterations, and \<open>None\<close> tells that the bound was reached.
\<close>

fun suite_loop ::
  "nat \<Rightarrow> config \<Rightarrow> suite_io \<Rightarrow> suite \<Rightarrow> nat \<Rightarrow> suite_run \<Rightarrow> suite_scheduler
     \<Rightarrow> (suite_run \<times> suite_scheduler \<times> error option) option" where
  "suite_loop 0 cfg io su k run sch = None"
| "suite_loop (Suc fuel) cfg io su k run sch =
     (if suite_stop sch \<or> tests_left run = [] then Some (run, sch, None)
      else
        (case schedule_tests cfg io su k run (scheduler sch) of
           (run, s, Some err) \<Rightarrow> Some (run, sch\<lparr>scheduler := s\<rparr>, Some err)
         | (run, s, None) \<Rightarrow>
             let run = run\<lparr>tests_left := not_found (tests su) (tests_results run)\<rparr>;
                 sch = sch\<lparr>scheduler := s\<rparr>
             in if timed_out run then
                  Some (run\<lparr>tests_results := tests_results run @ map skipped_result (tests_left run),
                            tests_left := []\<rparr>, sch, None)
                else suite_loop fuel cfg io su (Suc k) run sch))"

text \<open>The local variables of \<^verbatim>\<open>_run_suite\<close> when the loop is entered.\<close>

definition first_run :: "suite \<Rightarrow> suite_run" where
  "first_run su = \<lparr>timed_out = False, exec_times = [], tests_results = [], tests_left = tests su\<rparr>"

text \<open>
  \<^verbatim>\<open>_run_suite\<close>: \<^verbatim>\<open>get_info\<close> is awaited before the outer \<^verbatim>\<open>try\<close> statement, whose
  \<^verbatim>\<open>finally\<close> clause builds, fires and appends the \<^verbatim>\<open>SuiteResults\<close>.
\<close>

definition run_suite ::
  "nat \<Rightarrow> config \<Rightarrow> suite_io \<Rightarrow> suite \<Rightarrow> suite_scheduler
     \<Rightarrow> (suite_scheduler \<times> error option) option" where
  "run_suite fuel cfg io su sch =
     (let sch = sch\<lparr>scheduler := fire (Suite_started su) (scheduler sch)\<rparr> in
      (case get_info (probes io) of
         Inl err \<Rightarrow> Some (sch, Some err)
       | Inr info \<Rightarrow>
           (case suite_loop fuel cfg io su 0 (first_run su) sch of
              None \<Rightarrow> None
            | Some (run, sch, raised) \<Rightarrow>
                let suite_exec_time =
                      (if exec_times run = [] then suite_timeout cfg else sum_list (exec_times run));
                    sr = \<lparr>suite = su, sr_tests = tests_results run, sr_distro = distro info,
                          sr_distro_ver = distro_ver info, sr_kernel = kernel info,
                          sr_arch = arch info, sr_cpu = cpu info, sr_swap = swap info,
                          sr_ram = ram info\<rparr>;
                    sch = sch\<lparr>scheduler := fire (Suite_completed sr suite_exec_time) (scheduler sch)\<rparr>
                in Some (sch\<lparr>suite_results := suite_results sch @ [sr]\<rparr>, raised))))"

text \<open>
  \<^verbatim>\<open>SuiteScheduler.schedule\<close>: \<open>ios\<close> tells what happens during the run of each suite, by
  its position in \<open>jobs\<close>.
\<close>

fun run_suites ::
  "nat \<Rightarrow> config \<Rightarrow> (nat \<Rightarrow> suite_io) \<Rightarrow> nat \<Rightarrow> suite list \<Rightarrow> suite_scheduler
     \<Rightarrow> (suite_scheduler \<times> error option) option" where
  "run_suites fuel cfg ios i [] sch = Some (sch, None)"
| "run_suites fuel cfg ios i (su # sus) sch =
     (case run_suite fuel cfg (ios i) su sch of
        None \<Rightarrow> None
      | Some (sch, Some err) \<Rightarrow> Some (sch, Some err)
      | Some (sch, None) \<Rightarrow> run_suites fuel cfg ios (Suc i) sus sch)"

definition suite_schedule ::
  "nat \<Rightarrow> config \<Rightarrow> (nat \<Rightarrow> suite_io) \<Rightarrow> suite list \<Rightarrow> suite_scheduler
     \<Rightarrow> (suite_scheduler \<times> error option) option" where
  "suite_schedule fuel cfg ios jobs sch =
     (if jobs = [] then Some (sch, Some (ValueError ''jobs list is empty''))
      else run_suites fuel cfg ios 0 jobs (sch\<lparr>suite_results := []\<rparr>))"

text \<open>The status that the \<^verbatim>\<open>try\<close> statement of \<^verbatim>\<open>_run_test\<close> ends with, if it ends with one.\<close>

definition classified :: "test_scheduler \<times> (error + attempt_outcome) \<Rightarrow> status option" where
  "classified r = (case snd r of Inl err \<Rightarrow> None | Inr out \<Rightarrow> Some (status out))"

text \<open>The exception that \<^verbatim>\<open>_run_test\<close> raises for a status, once the result is recorded.\<close>

definition raised_for :: "status \<Rightarrow> error option" where
  "raised_for st =
     (if st = KERNEL_TAINTED then Some KernelTaintedError
      else if st = KERNEL_PANIC then Some KernelPanicError
      else if st = KERNEL_TIMEOUT then Some KernelTimeoutError
      else None)"

text \<open>The test names of a list of results, in order.\<close>

definition result_names :: "test_results list \<Rightarrow> string list" where
  "result_names rs = map (\<lambda>test_res. name (test test_res)) rs"

text \<open>
  An attempt that is cancelled while its command runs: \<^verbatim>\<open>_write_kmsg\<close> and the first
  reading of the taint state have returned, and the awaited command raises
  \<^verbatim>\<open>CancelledError\<close>. This is what the expiry of the suite timeout does to a test that
  needs longer than the suite timeout.
\<close>

definition cancelled_in_command :: "config \<Rightarrow> attempt_io \<Rightarrow> bool" where
  "cancelled_in_command cfg io =
     (write_kmsg io = None \<and> (\<exists>tb. tainted_before io = Inr tb)
      \<and> wait_for (command_run io) (timeout cfg) = Inl CancelledError)"

section \<open>Example inputs\<close>

text \<open>A probe of \<^verbatim>\<open>get_info\<close> that answers at once with the given output and return code.\<close>

definition probe_reply :: "string \<Rightarrow> string \<Rightarrow> int \<Rightarrow> command_result awaited" where
  "probe_reply cmd out rc =
     \<lparr>duration = 0, outcome = Inr \<lparr>command = cmd, stdout = out, returncode = rc, exec_time = 0\<rparr>\<rparr>"

text \<open>A SUT on which \<^verbatim>\<open>/proc/meminfo\<close> cannot be read; the other probes succeed.\<close>

definition no_meminfo :: info_probes where
  "no_meminfo =
     \<lparr>probe_distro = probe_reply ''. /etc/os-release && echo \"$ID\"'' (''alpine'' @ [CHR 0x0A]) 0,
      probe_distro_ver =
        probe_reply ''. /etc/os-release && echo \"$VERSION_ID\"'' (''3.19'' @ [CHR 0x0A]) 0,
      probe_kernel = probe_reply ''uname -s -r -v'' (''Linux 6.6 #1 SMP'' @ [CHR 0x0A]) 0,
      probe_arch = probe_reply ''uname -m'' (''x86_64'' @ [CHR 0x0A]) 0,
      probe_cpu = probe_reply ''uname -p'' (''unknown'' @ [CHR 0x0A]) 0,
      probe_meminfo = probe_reply ''cat /proc/meminfo'' (''cat: can't open /proc/meminfo'' @ [CHR 0x0A]) 1\<rparr>"

text \<open>
  A process that prints the kernel panic line, then two more full chunks of output, and
  exits.
\<close>

definition filler :: string where
  "filler = replicate BUFFSIZE CHR ''a''"

definition panic_then_output :: process where
  "panic_then_output =
     \<lparr>pid = 4242,
      read_r = (\<lambda>k. if k = 0 then ''Kernel panic'' else filler),
      alive_r = (\<lambda>k. k < 2),
      proc_returncode = 0,
      run_time = 1\<rparr>"

text \<open>
  A framework that reads a result from the return code alone, as
  \<^verbatim>\<open>LTPFramework.read_result\<close> does for an output with neither summary nor markers.
\<close>

definition by_retcode :: "test \<Rightarrow> string \<Rightarrow> int \<Rightarrow> real \<Rightarrow> test_results" where
  "by_retcode t out rc exec_t' =
     \<lparr>test = t,
      failed = (if rc \<notin> set [0, 4, 32, - 1] then 1 else 0),
      passed = (if rc = 0 then 1 else 0),
      broken = (if rc = - 1 then 1 else 0),
      skipped = (if rc = 32 then 1 else 0),
      warnings = (if rc = 4 then 1 else 0),
      res_exec_time = exec_t', retcode = rc, res_stdout = out\<rparr>"

definition host_cfg :: config where
  "host_cfg = \<lparr>timeout = 15, force_parallel = False, read_result = by_retcode,
               suite_timeout = 60, sut_name = ''host''\<rparr>"

definition idle :: test_scheduler where
  "idle = \<lparr>results = [], stop = False, fired = []\<rparr>"

definition mk_test :: "string \<Rightarrow> test" where
  "mk_test n = \<lparr>name = n, full_command = n, cwd = ''/opt/ltp/testcases/bin'', env = [],
              parallelizable = False\<rparr>"

text \<open>
  A SUT on which everything goes well: the user is not root, the kernel is not tainted,
  the command prints a line and returns 0 after a second, and a ping is answered at once.
\<close>

definition quiet_io :: attempt_io where
  "quiet_io =
     \<lparr>kmsg_id = Inr \<lparr>command = ''id -u'', stdout = ''1000'' @ [CHR 0x0A], returncode = 0,
                     exec_time = 0\<rparr>,
      kmsg_echo = Inl (SUTError ''not reached''),
      tainted_before = Inr (0, []),
      command_run = \<lparr>duration = 1,
                     outcome = Inr \<lparr>command = ''run'', stdout = ''done'', returncode = 0,
                                    exec_time = 1\<rparr>\<rparr>,
      streamed = ''done'',
      tainted_after = Inr (0, []),
      ping_run = \<lparr>duration = 0, outcome = Inr 0\<rparr>,
      elapsed = 1\<rparr>"

text \<open>The command hangs, and \<^verbatim>\<open>ping\<close> hangs (or is answered) afterwards.\<close>

definition hang_io :: "real \<Rightarrow> attempt_io" where
  "hang_io ping_time =
     quiet_io\<lparr>command_run := \<lparr>duration = 3600, outcome = Inl CancelledError\<rparr>,
              streamed := ''starting'',
              ping_run := \<lparr>duration = ping_time, outcome = Inr ping_time\<rparr>,
              elapsed := 15\<rparr>"

text \<open>The command ends with a kernel panic after two seconds.\<close>

definition panic_io :: attempt_io where
  "panic_io =
     quiet_io\<lparr>command_run := \<lparr>duration = 2, outcome = Inl KernelPanicError\<rparr>,
              streamed := ''Kernel panic'',
              elapsed := 2\<rparr>"

text \<open>The tainted state of the kernel cannot be read.\<close>

definition unreadable_io :: attempt_io where
  "unreadable_io =
     quiet_io\<lparr>tainted_before := Inl (SUTError ''Can't read tainted kernel information'')\<rparr>"

text \<open>The suite timeout expires five seconds into the command.\<close>

definition cancelled_io :: attempt_io where
  "cancelled_io =
     quiet_io\<lparr>command_run := \<lparr>duration = 5, outcome = Inl CancelledError\<rparr>,
              streamed := ''starting'',
              elapsed := 5\<rparr>"

definition two_tests :: suite where
  "two_tests = \<lparr>suite_name = ''mm'', tests = [mk_test ''oom01'', mk_test ''oom02'']\<rparr>"

definition fresh :: suite_scheduler where
  "fresh = \<lparr>suite_results = [], suite_stop = False, scheduler = idle\<rparr>"

definition in_order :: "(test \<Rightarrow> attempt_io) \<Rightarrow> schedule_io" where
  "in_order att = \<lparr>attempt = att, finish_rank = (\<lambda>t. 0), finishes_anyway = (\<lambda>t. False)\<rparr>"

text \<open>
  A run in which the first test ends with a kernel panic, the SUT comes back at the first
  \<^verbatim>\<open>communicate\<close>, and everything goes well afterwards.
\<close>

definition reboot_io :: suite_io where
  "reboot_io =
     \<lparr>probes = no_meminfo,
      schedule_r = (\<lambda>k. if k = 0
                         then in_order (\<lambda>t. if name t = ''oom01'' then panic_io else quiet_io)
                         else in_order (\<lambda>t. quiet_io)),
      schedule_time = (\<lambda>k. 3),
      restart_stop = (\<lambda>k. None),
      restart_session = (\<lambda>k. \<lparr>communicate_r = (\<lambda>k. None), stop_r = (\<lambda>k. None)\<rparr>)\<rparr>"

text \<open>
  A run in which every test ends with a kernel panic: the SUT comes back after the first
  panic, and never after the second, where every \<^verbatim>\<open>communicate\<close> fails.
\<close>

definition relapse_io :: suite_io where
  "relapse_io =
     reboot_io\<lparr>schedule_r := (\<lambda>k. in_order (\<lambda>t. panic_io)),
               restart_session :=
       (\<lambda>k. if k = 0 then \<lparr>communicate_r = (\<lambda>k. None), stop_r = (\<lambda>k. None)\<rparr>
             else \<lparr>communicate_r = (\<lambda>k. Some (SUTError ''SUT is not replying'')),
                   stop_r = (\<lambda>k. None)\<rparr>)\<rparr>"

text \<open>The loop of that run after its first iteration: the first test is recorded.\<close>

definition relapse_run :: suite_run where
  "relapse_run =
     \<lparr>timed_out = False, exec_times = [],
      tests_results = [by_retcode (mk_test ''oom01'') ''Kernel panic'' (- 1) 2],
      tests_left = [mk_test ''oom02'']\<rparr>"

definition relapse_scheduler :: suite_scheduler where
  "relapse_scheduler =
     \<lparr>suite_results = [], suite_stop = False,
      scheduler =
        \<lparr>results = [by_retcode (mk_test ''oom01'') ''Kernel panic'' (- 1) 2], stop = False,
         fired = [Suite_started two_tests, Test_started (mk_test ''oom01''), Kernel_panic,
                  Sut_restart ''host'']\<rparr>\<rparr>"

text \<open>A run in which the suite timeout expires while the first test runs.\<close>

definition timeout_io :: suite_io where
  "timeout_io = reboot_io\<lparr>schedule_r := (\<lambda>k. in_order (\<lambda>t. cancelled_io))\<rparr>"

text \<open>A run on a SUT that is not running: every command raises \<^verbatim>\<open>SUTError\<close>.\<close>

definition not_running :: "command_result awaited" where
  "not_running = \<lparr>duration = 0, outcome = Inl (SUTError ''SUT is not running'')\<rparr>"

definition stopped_io :: suite_io where
  "stopped_io =
     reboot_io\<lparr>probes :=
       \<lparr>probe_distro = not_running, probe_distro_ver = not_running, probe_kernel = not_running,
        probe_arch = not_running, probe_cpu = not_running, probe_meminfo = not_running\<rparr>\<rparr>"

section \<open>Properties of ensure_communicate\<close>

lemma communicate_loop_success:
  assumes "communicate_r io (r + k) = None"
    and "\<forall>j<k. \<exists>e. communicate_r io (r + j) = Some e \<and> is_KirkException e"
    and "\<forall>j<k. stop_r io (r + j) = None"
    and "k < left"
    and "int (r + left) \<le> retries"
  shows "communicate_loop io retries left r =
           (concat (replicate k [Communicate, Stop]) @ [Communicate], None)"
  using assms
proof (induction k arbitrary: r left)
  case 0
  then obtain l where "left = Suc l" by (cases left) auto
  with 0 show ?case by simp
next
  case (Suc k)
  then obtain l where l: "left = Suc l" by (cases left) auto
  from Suc.prems(2) obtain e where e: "communicate_r io r = Some e" "is_KirkException e"
    by (metis add.right_neutral zero_less_Suc)
  have st: "stop_r io r = None"
    using Suc.prems(3) by (metis add.right_neutral zero_less_Suc)
  have nl: "\<not> int r \<ge> retries - 1" using Suc.prems(4,5) by linarith
  have "communicate_loop io retries l (Suc r) =
          (concat (replicate k [Communicate, Stop]) @ [Communicate], None)"
  proof (rule Suc.IH)
    show "communicate_r io (Suc r + k) = None" using Suc.prems(1) by simp
    show "\<forall>j<k. \<exists>e. communicate_r io (Suc r + j) = Some e \<and> is_KirkException e"
      using Suc.prems(2) by (metis Suc_less_eq add_Suc_shift)
    show "\<forall>j<k. stop_r io (Suc r + j) = None"
      using Suc.prems(3) by (metis Suc_less_eq add_Suc_shift)
    show "k < l" using Suc.prems(4) l by simp
    show "int (Suc r + l) \<le> retries" using Suc.prems(5) l by simp
  qed
  with e st nl l show ?case by simp
qed

lemma communicate_loop_exhausted:
  assumes "\<forall>j<left. \<exists>e. communicate_r io (r + j) = Some e \<and> is_KirkException e"
    and "\<forall>j<left. stop_r io (r + j) = None"
    and "0 < left"
    and "int (r + left) = retries"
  shows "communicate_loop io retries left r =
           (concat (replicate (left - 1) [Communicate, Stop]) @ [Communicate],
            communicate_r io (r + left - 1))"
  using assms
proof (induction left arbitrary: r)
  case 0
  then show ?case by simp
next
  case (Suc l)
  from Suc.prems(1) obtain e where e: "communicate_r io r = Some e" "is_KirkException e"
    by (metis add.right_neutral zero_less_Suc)
  show ?case
  proof (cases l)
    case 0
    with Suc.prems(4) have "int r \<ge> retries - 1" by simp
    with e 0 show ?thesis by simp
  next
    case (Suc l')
    have st: "stop_r io r = None"
      using Suc.prems(2) by (metis add.right_neutral zero_less_Suc)
    have nl: "\<not> int r \<ge> retries - 1" using Suc.prems(4) Suc by linarith
    have "communicate_loop io retries l (Suc r) =
            (concat (replicate (l - 1) [Communicate, Stop]) @ [Communicate],
             communicate_r io (Suc r + l - 1))"
    proof (rule Suc.IH)
      show "\<forall>j<l. \<exists>e. communicate_r io (Suc r + j) = Some e \<and> is_KirkException e"
        using Suc.prems(1) by (metis Suc_less_eq add_Suc_shift)
      show "\<forall>j<l. stop_r io (Suc r + j) = None"
        using Suc.prems(2) by (metis Suc_less_eq add_Suc_shift)
      show "0 < l" using Suc by simp
      show "int (Suc r + l) = retries" using Suc.prems(4) by simp
    qed
    with e st nl Suc show ?thesis by simp
  qed
qed

lemma find_upt_None: "List.find P [0..<n] = None \<longleftrightarrow> (\<forall>j<n. \<not> P j)"
  by (auto simp: find_None_iff)

lemma find_upt_Some:
  "List.find P [0..<n] = Some k \<longleftrightarrow> (k < n \<and> P k \<and> (\<forall>j<k. \<not> P j))"
  by (auto simp: find_Some_iff)

text \<open>
  Claim C6. For \<open>retries = n \<ge> 1\<close>, with \<^verbatim>\<open>communicate\<close> failing only with KirkException
  errors and \<^verbatim>\<open>stop\<close> returning: when the first successful attempt is attempt \<open>k < n\<close>, the
  calls are \<open>k\<close> times communicate-then-stop followed by the successful communicate, and
  nothing is raised; when all \<open>n\<close> attempts fail, the calls are \<open>n - 1\<close> times
  communicate-then-stop followed by the last communicate, and the error of that last
  attempt is raised. So communicate is attempted at most \<open>n\<close> times, stop is called once
  after each failed attempt but the last, and attempts end at the first success.
\<close>

theorem ensure_communicate_retries:
  assumes "1 \<le> n"
    and "\<forall>k e. communicate_r io k = Some e \<longrightarrow> is_KirkException e"
    and "\<forall>k. stop_r io k = None"
  shows "ensure_communicate io n =
     (case List.find (\<lambda>k. communicate_r io k = None) [0..<nat n] of
        Some k \<Rightarrow> (concat (replicate k [Communicate, Stop]) @ [Communicate], None)
      | None \<Rightarrow> (concat (replicate (nat n - 1) [Communicate, Stop]) @ [Communicate],
                 communicate_r io (nat n - 1)))"
proof (cases "List.find (\<lambda>k. communicate_r io k = None) [0..<nat n]")
  case None
  then have all: "\<forall>j<nat n. communicate_r io j \<noteq> None"
    by (simp add: find_upt_None)
  have "communicate_loop io n (nat n) 0 =
          (concat (replicate (nat n - 1) [Communicate, Stop]) @ [Communicate],
           communicate_r io (0 + nat n - 1))"
  proof (rule communicate_loop_exhausted)
    show "\<forall>j<nat n. \<exists>e. communicate_r io (0 + j) = Some e \<and> is_KirkException e"
      using all assms(2) by auto
    show "\<forall>j<nat n. stop_r io (0 + j) = None" using assms(3) by simp
    show "0 < nat n" using assms(1) by simp
    show "int (0 + nat n) = n" using assms(1) by simp
  qed
  with None assms(1) show ?thesis by (simp add: ensure_communicate_def max_def)
next
  case (Some k)
  then have k: "k < nat n" "communicate_r io k = None" "\<forall>j<k. communicate_r io j \<noteq> None"
    by (auto simp: find_upt_Some)
  have "communicate_loop io n (nat n) 0 =
          (concat (replicate k [Communicate, Stop]) @ [Communicate], None)"
  proof (rule communicate_loop_success)
    show "communicate_r io (0 + k) = None" using k by simp
    show "\<forall>j<k. \<exists>e. communicate_r io (0 + j) = Some e \<and> is_KirkException e"
      using k(3) assms(2) by auto
    show "\<forall>j<k. stop_r io (0 + j) = None" using assms(3) by simp
    show "k < nat n" by (rule k(1))
    show "int (0 + nat n) \<le> n" using assms(1) by simp
  qed
  with Some assms(1) show ?thesis by (simp add: ensure_communicate_def max_def)
qed

text \<open>
  With \<open>retries = 3\<close> and a communicate that fails twice and then succeeds, communicate is
  called three times, stop twice (once after each failure), and nothing is raised.
\<close>

theorem ensure_communicate_retries_witness:
  "ensure_communicate
     \<lparr>communicate_r = (\<lambda>k. if k < 2 then Some (SUTError ''SUT is running'') else None),
      stop_r = (\<lambda>k. None)\<rparr> 3
   = ([Communicate, Stop, Communicate, Stop, Communicate], None)"
  using ensure_communicate_retries
    [of 3 "\<lparr>communicate_r = (\<lambda>k. if k < 2 then Some (SUTError ''SUT is running'') else None),
            stop_r = (\<lambda>k. None)\<rparr>"]
  by (simp add: eval_nat_numeral)

text \<open>
  Claim C10. With \<open>retries \<le> 0\<close> the retry count is clamped to 1: communicate is called
  exactly once, stop is never called, and what that single call raises (if anything) is
  what \<^verbatim>\<open>ensure_communicate\<close> raises.
\<close>

theorem ensure_communicate_clamped:
  "retries \<le> 0 \<Longrightarrow> ensure_communicate io retries = ([Communicate], communicate_r io 0)"
  by (cases "communicate_r io 0") (simp_all add: ensure_communicate_def max_def)

theorem ensure_communicate_clamped_witness:
  "(- 2 :: int) \<le> 0 \<and>
   ensure_communicate
     \<lparr>communicate_r = (\<lambda>k. Some (SUTError ''SUT is running'')), stop_r = (\<lambda>k. None)\<rparr> (- 2)
   = ([Communicate], Some (SUTError ''SUT is running''))"
  using ensure_communicate_clamped
    [of "- 2" "\<lparr>communicate_r = (\<lambda>k. Some (SUTError ''SUT is running'')), stop_r = (\<lambda>k. None)\<rparr>"]
  by simp

section \<open>Properties of get_info\<close>

text \<open>
  Claim C4. When \<^verbatim>\<open>/proc/meminfo\<close> cannot be read (the probe ends with return code 1),
  \<^verbatim>\<open>get_info\<close> returns \<open>''unknown''\<close> for the RAM but \<open>''unkown''\<close> for the swap: the
  default of the swap field is misspelt in the source.
\<close>

theorem get_info_swap_default:
  "get_info no_meminfo =
     Inr \<lparr>distro = ''alpine'', distro_ver = ''3.19'', kernel = ''Linux 6.6 #1 SMP'',
          arch = ''x86_64'', cpu = ''unknown'', ram = ''unknown'', swap = ''unkown''\<rparr>"
  by (simp add: get_info_def no_meminfo_def probe_reply_def run_cmd_def wait_for_def rstrip_def Let_def
      is_space_def match_total_kb_def startswith_def)

section \<open>Properties of get_tainted_info\<close>

lemma length_TAINTED_MSG: "length TAINTED_MSG = 18"
  by (simp add: TAINTED_MSG_def)

lemma binary_digits_nth:
  "i < length (binary_digits n) \<Longrightarrow> binary_digits n ! i = (if bit n i then CHR ''1'' else CHR ''0'')"
proof (induction n arbitrary: i rule: binary_digits.induct)
  case (1 n)
  show ?case
  proof (cases "n = 0")
    case True
    with "1.prems" show ?thesis by (simp add: binary_digits.simps)
  next
    case False
    then have eq: "binary_digits n = (if odd n then CHR ''1'' else CHR ''0'') # binary_digits (n div 2)"
      by (subst binary_digits.simps) simp
    show ?thesis
    proof (cases i)
      case 0
      then show ?thesis by (simp add: eq bit_0)
    next
      case (Suc j)
      with "1.prems" eq have "j < length (binary_digits (n div 2))" by simp
      with "1.IH" [OF False]
      have "binary_digits (n div 2) ! j = (if bit (n div 2) j then CHR ''1'' else CHR ''0'')"
        by simp
      with Suc show ?thesis by (simp add: eq bit_Suc)
    qed
  qed
qed

lemma binary_digits_beyond:
  "length (binary_digits n) \<le> i \<Longrightarrow> \<not> bit n i"
proof (induction n arbitrary: i rule: binary_digits.induct)
  case (1 n)
  show ?case
  proof (cases "n = 0")
    case True
    then show ?thesis by simp
  next
    case False
    then have eq: "binary_digits n = (if odd n then CHR ''1'' else CHR ''0'') # binary_digits (n div 2)"
      by (subst binary_digits.simps) simp
    with "1.prems" obtain j where j: "i = Suc j" "length (binary_digits (n div 2)) \<le> j"
      by (cases i) auto
    with "1.IH" [OF False] have "\<not> bit (n div 2) j" by simp
    with j show ?thesis by (simp add: bit_Suc)
  qed
qed

lemma format_binary_bit:
  assumes "i < w"
  shows "rev (format_binary n w) ! i = CHR ''1'' \<longleftrightarrow> bit n i"
proof (cases "n = 0")
  case True
  then show ?thesis using assms
    by (cases i) (simp_all add: format_binary_def nth_append nth_Cons')
next
  case False
  then have r: "rev (format_binary n w) =
      binary_digits n @ replicate (w - length (binary_digits n)) CHR ''0''"
    by (simp add: format_binary_def)
  show ?thesis
  proof (cases "i < length (binary_digits n)")
    case True
    then show ?thesis by (simp add: r nth_append binary_digits_nth)
  next
    case False
    then have "\<not> bit n i" by (simp add: binary_digits_beyond)
    with False assms show ?thesis by (simp add: r nth_append)
  qed
qed

lemma foldl_select:
  "foldl (\<lambda>acc i. if P i then acc @ [f i] else acc) a xs = a @ map f (filter P xs)"
  by (induction xs arbitrary: a) auto

lemma tainted_messages_bits:
  "tainted_messages code =
     map (\<lambda>i. TAINTED_MSG ! i) (filter (\<lambda>i. bit code i) [0..<length TAINTED_MSG])"
proof -
  have "filter (\<lambda>i. rev (format_binary code (length TAINTED_MSG)) ! i = CHR ''1'')
          [0..<length TAINTED_MSG]
        = filter (\<lambda>i. bit code i) [0..<length TAINTED_MSG]"
    by (rule filter_cong) (auto simp: format_binary_bit)
  then show ?thesis
    by (simp add: tainted_messages_def Let_def foldl_select)
qed

text \<open>
  Claim C5. When \<^verbatim>\<open>get_tainted_info\<close> reads the SUT (no cached value is served) and the
  command prints a number, the result is that number with the reasons
  \<open>TAINTED_MSG ! i\<close> for exactly the indices \<open>i\<close> of the table whose bit is set in the
  number, in increasing order of \<open>i\<close>.
\<close>

theorem get_tainted_info_decodes:
  assumes "\<not> (tainted_lock c \<and> tainted_status c \<noteq> None)"
    and "returncode ret = 0"
    and "isdigit (strip (stdout ret))"
  shows "snd (get_tainted_info c (Inr ret)) =
           Inr (int_of_string (strip (stdout ret)),
                map (\<lambda>i. TAINTED_MSG ! i)
                  (filter (\<lambda>i. bit (int_of_string (strip (stdout ret))) i)
                     [0..<length TAINTED_MSG]))"
  using assms
  by (auto simp: get_tainted_info_def Let_def tainted_messages_bits
      split: option.splits bool.splits)

text \<open>For the bitmask 5 the reasons are those at index 0 and index 2, in that order.\<close>

theorem get_tainted_info_decodes_witness:
  "snd (get_tainted_info \<lparr>tainted_lock = False, tainted_status = None\<rparr>
          (Inr \<lparr>command = ''cat /proc/sys/kernel/tainted'', stdout = ''5'' @ [CHR 0x0A],
                returncode = 0, exec_time = 0\<rparr>))
   = Inr (5, [TAINTED_MSG ! 0, TAINTED_MSG ! 2])
   \<and> TAINTED_MSG ! 0 = ''proprietary module was loaded''
   \<and> TAINTED_MSG ! 2 = ''kernel running on an out of specification system''"
proof -
  let ?c = "\<lparr>tainted_lock = False, tainted_status = None\<rparr>"
  let ?ret = "\<lparr>command = ''cat /proc/sys/kernel/tainted'', stdout = ''5'' @ [CHR 0x0A],
               returncode = 0, exec_time = 0\<rparr>"
  have a: "\<not> (tainted_lock ?c \<and> tainted_status ?c \<noteq> None)" by simp
  have b: "returncode ?ret = 0" by simp
  have s: "strip (stdout ?ret) = ''5''" by code_simp
  have c: "isdigit (strip (stdout ?ret))" unfolding s by code_simp
  have n: "int_of_string ''5'' = 5" by code_simp
  have f: "map (\<lambda>i. TAINTED_MSG ! i) (filter (\<lambda>i. bit (5::nat) i) [0..<length TAINTED_MSG])
           = tainted_messages 5"
    by (simp add: tainted_messages_bits)
  have g: "tainted_messages 5 = [TAINTED_MSG ! 0, TAINTED_MSG ! 2]"
    by code_simp
  have h: "TAINTED_MSG ! 0 = ''proprietary module was loaded''"
    "TAINTED_MSG ! 2 = ''kernel running on an out of specification system''"
    by (simp_all add: TAINTED_MSG_def)
  show ?thesis using get_tainted_info_decodes [OF a b c] h unfolding s n f g by simp
qed

section \<open>Properties of HostSUT.run_command\<close>

lemma contains_subset: "contains sub s \<Longrightarrow> set sub \<subseteq> set s"
proof (induction s)
  case Nil
  then show ?case by simp
next
  case (Cons c cs)
  from Cons.prems have "take (length sub) (c # cs) = sub \<or> contains sub cs" by simp
  then show ?case
  proof
    assume eq: "take (length sub) (c # cs) = sub"
    have "set (take (length sub) (c # cs)) \<subseteq> set (c # cs)" by (rule set_take_subset)
    then show ?thesis unfolding eq .
  next
    assume "contains sub cs"
    then have "set sub \<subseteq> set cs" by (rule Cons.IH)
    then show ?thesis by auto
  qed
qed

lemma contains_prefix: "sub \<noteq> [] \<Longrightarrow> contains sub (sub @ s)"
  by (cases sub) simp_all

lemma read_output_last:
  "\<not> alive_r proc k \<Longrightarrow>
   read_output proc iobuffer k out panic =
     Some (iobuffer_write iobuffer (read_r proc k), out @ read_r proc k,
           contains ''Kernel panic'' (last_chars (2 * BUFFSIZE) (out @ read_r proc k)))"
  by (subst read_output.simps) (simp add: Let_def del: contains.simps)

lemma read_output_next:
  "alive_r proc k \<Longrightarrow>
   read_output proc iobuffer k out panic =
     read_output proc (iobuffer_write iobuffer (read_r proc k)) (Suc k) (out @ read_r proc k)
       (contains ''Kernel panic'' (last_chars (2 * BUFFSIZE) (out @ read_r proc k)))"
  by (subst read_output.simps) (simp add: Let_def del: contains.simps)

lemma no_panic_in_tail:
  "\<not> contains ''Kernel panic''
       (last_chars (2 * BUFFSIZE) ((([] @ ''Kernel panic'') @ filler) @ filler))"
proof -
  have "last_chars (2 * BUFFSIZE) ((([] @ ''Kernel panic'') @ filler) @ filler) = filler @ filler"
    by (simp add: last_chars_def filler_def)
  moreover have "\<not> contains ''Kernel panic'' (filler @ filler)"
    using contains_subset [of "''Kernel panic''" "filler @ filler"]
    by (auto simp: filler_def)
  ultimately show ?thesis by simp
qed

lemma read_panic_then_output:
  "read_output panic_then_output (Some []) 0 [] False
     = Some (Some [''Kernel panic'', filler, filler],
             (([] @ ''Kernel panic'') @ filler) @ filler, False)"
proof -
  have a: "alive_r panic_then_output 0" "alive_r panic_then_output (Suc 0)"
    "\<not> alive_r panic_then_output (Suc (Suc 0))"
    by (simp_all add: panic_then_output_def)
  have r: "read_r panic_then_output 0 = ''Kernel panic''"
    "read_r panic_then_output (Suc 0) = filler"
    "read_r panic_then_output (Suc (Suc 0)) = filler"
    by (simp_all add: panic_then_output_def)
  have w: "iobuffer_write (iobuffer_write (iobuffer_write (Some []) ''Kernel panic'') filler) filler
           = Some [''Kernel panic'', filler, filler]"
    by (simp add: iobuffer_write_def)
  show ?thesis
    by (simp only: read_output_next [OF a(1)] read_output_next [OF a(2)]
        read_output_last [OF a(3)] r no_panic_in_tail w)
qed

text \<open>
  Claim C3. The process prints \<open>Kernel panic\<close> and then 2048 more characters. The marker
  is in the streamed output, and the sink has received it, but the flag computed after the
  last chunk looks at the last 2048 characters only and replaces the value computed after
  the earlier chunks: \<^verbatim>\<open>run_command\<close> kills the process and returns its record, with
  no \<^verbatim>\<open>KernelPanicError\<close>.
\<close>

theorem run_command_forgets_panic:
  "run_command \<lparr>running = True, procs = []\<rparr> ''dmesg -w'' (Some []) (Inr panic_then_output)
   = Some (\<lparr>running = True, procs = []\<rparr>, [Wait 4242, Killpg 4242, Wait 4242],
           Some [''Kernel panic'', filler, filler],
           Inr \<lparr>command = ''dmesg -w'', stdout = ''Kernel panic'' @ filler @ filler,
                returncode = 0, exec_time = 1\<rparr>)
   \<and> contains ''Kernel panic'' (''Kernel panic'' @ filler @ filler)"
proof -
  have "contains ''Kernel panic'' (''Kernel panic'' @ filler @ filler)"
    by (rule contains_prefix) simp
  moreover have "run_command \<lparr>running = True, procs = []\<rparr> ''dmesg -w'' (Some [])
      (Inr panic_then_output)
   = Some (\<lparr>running = True, procs = []\<rparr>, [Wait 4242, Killpg 4242, Wait 4242],
           Some [''Kernel panic'', filler, filler],
           Inr \<lparr>command = ''dmesg -w'', stdout = ''Kernel panic'' @ filler @ filler,
                returncode = 0, exec_time = 1\<rparr>)"
    by (simp add: run_command_def read_panic_then_output) (simp add: panic_then_output_def)
  ultimately show ?thesis by simp
qed

section \<open>Properties of TestScheduler._run_test\<close>

lemma fire_fields [simp]: "results (fire ev s) = results s" "stop (fire ev s) = stop s"
  by (simp_all add: fire_def)

lemma foldl_fire_fields:
  "results (foldl (\<lambda>s msg. if P msg then fire (f msg) s else s) s msgs) = results s \<and>
   stop (foldl (\<lambda>s msg. if P msg then fire (f msg) s else s) s msgs) = stop s"
  by (induction msgs arbitrary: s) simp_all

lemma get_tainted_status_fields:
  "get_tainted_status info s = (s', r) \<Longrightarrow> results s' = results s \<and> stop s' = stop s"
  by (auto simp: get_tainted_status_def foldl_fire_fields split: sum.splits prod.splits)

lemma try_command_fields:
  assumes "try_command tmo io s = (s', r)"
  shows "results s' = results s \<and> stop s' = stop s"
proof -
  obtain s1 r1 where g1: "get_tainted_status (tainted_before io) s = (s1, r1)"
    by (cases "get_tainted_status (tainted_before io) s")
  obtain s2 r2 where g2: "get_tainted_status (tainted_after io) s1 = (s2, r2)"
    by (cases "get_tainted_status (tainted_after io) s1")
  have f1: "results s1 = results s \<and> stop s1 = stop s"
    using g1 by (rule get_tainted_status_fields)
  have f2: "results s2 = results s1 \<and> stop s2 = stop s1"
    using g2 by (rule get_tainted_status_fields)
  from assms have "s' = s1 \<or> s' = s2"
    by (auto simp: try_command_def g1 g2 split: sum.splits prod.splits if_splits)
  with f1 f2 show ?thesis by auto
qed

lemma try_command_data:
  assumes "try_command tmo io s = (s', Inr out)"
  shows "status out \<in> {STATUS_OK, KERNEL_TAINTED} \<and> test_data out \<noteq> None"
  using assms
  by (auto simp: try_command_def split: sum.splits prod.splits if_splits)

lemma classify_fields:
  assumes "classify tmo io s = (s', r)"
  shows "results s' = results s \<and> stop s' = stop s"
proof -
  obtain s1 r1 where t: "try_command tmo io s = (s1, r1)"
    by (cases "try_command tmo io s")
  from assms have "s' = s1"
    by (auto simp: classify_def t split: sum.splits if_splits)
  with try_command_fields [OF t] show ?thesis by simp
qed

lemma classify_data:
  assumes "classify tmo io s = (s', Inr out)"
  shows "status out \<in> {STATUS_OK, KERNEL_TAINTED} \<longrightarrow> test_data out \<noteq> None"
proof -
  obtain s1 r1 where t: "try_command tmo io s = (s1, r1)"
    by (cases "try_command tmo io s")
  show ?thesis
  proof (cases r1)
    case (Inr out')
    with assms t have "out = out'" by (simp add: classify_def)
    with try_command_data t Inr show ?thesis by blast
  next
    case (Inl err)
    with assms t show ?thesis
      by (auto simp: classify_def split: sum.splits if_splits)
  qed
qed

lemma try_command_times_out:
  assumes "tainted_before io = Inr tb" and "tmo < duration (command_run io)"
  shows "snd (try_command tmo io s) = Inl TimeoutError"
  using assms
  by (cases tb) (simp add: try_command_def get_tainted_status_def wait_for_def)

lemma try_command_raises:
  assumes "tainted_before io = Inr tb" and "wait_for (command_run io) tmo = Inl err"
  shows "snd (try_command tmo io s) = Inl err"
  using assms
  by (cases tb) (simp add: try_command_def get_tainted_status_def)

text \<open>
  Claim C7. Let the taint state be read, so that the command is run. When the command
  needs longer than the configured timeout, \<^verbatim>\<open>ping\<close> is awaited with a timeout of 10
  seconds: the attempt ends as \<open>KERNEL_TIMEOUT\<close> if and only if that wait times out, and
  as \<open>TEST_TIMEOUT\<close> when the ping is answered. When the command raises
  \<^verbatim>\<open>KernelPanicError\<close> the attempt ends as \<open>KERNEL_PANIC\<close>.
\<close>

theorem classify_timeout_and_panic:
  assumes "tainted_before io = Inr tb"
  shows "(tmo < duration (command_run io) \<longrightarrow>
            (classified (classify tmo io s) = Some KERNEL_TIMEOUT
               \<longleftrightarrow> wait_for (ping_run io) 10 = Inl TimeoutError)
          \<and> (\<forall>reply_t. wait_for (ping_run io) 10 = Inr reply_t
               \<longrightarrow> classified (classify tmo io s) = Some TEST_TIMEOUT))
       \<and> (wait_for (command_run io) tmo = Inl KernelPanicError
            \<longrightarrow> classified (classify tmo io s) = Some KERNEL_PANIC)"
proof (intro conjI impI allI)
  assume "wait_for (command_run io) tmo = Inl KernelPanicError"
  from try_command_raises [OF assms this, of s]
  show "classified (classify tmo io s) = Some KERNEL_PANIC"
    by (cases "try_command tmo io s") (simp add: classify_def classified_def)
next
  assume "tmo < duration (command_run io)"
  from try_command_times_out [OF assms this, of s]
  show "classified (classify tmo io s) = Some KERNEL_TIMEOUT
          \<longleftrightarrow> wait_for (ping_run io) 10 = Inl TimeoutError"
    by (cases "try_command tmo io s")
      (auto simp: classify_def classified_def split: sum.splits)
next
  fix reply_t
  assume "tmo < duration (command_run io)" and "wait_for (ping_run io) 10 = Inr reply_t"
  with try_command_times_out [OF assms, of tmo s]
  show "classified (classify tmo io s) = Some TEST_TIMEOUT"
    by (cases "try_command tmo io s") (simp add: classify_def classified_def)
qed

text \<open>
  A command that hangs with a timeout of 15 seconds: with a ping that needs 11 seconds the
  attempt is a \<open>KERNEL_TIMEOUT\<close>, with a ping answered after 2 seconds a \<open>TEST_TIMEOUT\<close>;
  and a command that raises \<^verbatim>\<open>KernelPanicError\<close> gives \<open>KERNEL_PANIC\<close>.
\<close>

theorem classify_timeout_and_panic_witness:
  "classified (classify 15 (hang_io 11) idle) = Some KERNEL_TIMEOUT
   \<and> classified (classify 15 (hang_io 2) idle) = Some TEST_TIMEOUT
   \<and> classified (classify 15 panic_io idle) = Some KERNEL_PANIC"
proof -
  have t: "tainted_before (hang_io 11) = Inr (0, [])" "tainted_before (hang_io 2) = Inr (0, [])"
    "tainted_before panic_io = Inr (0, [])"
    by (simp_all add: hang_io_def panic_io_def quiet_io_def)
  have d: "(15::real) < duration (command_run (hang_io 11))"
    "(15::real) < duration (command_run (hang_io 2))"
    by (simp_all add: hang_io_def)
  have p: "wait_for (ping_run (hang_io 11)) 10 = Inl TimeoutError"
    "wait_for (ping_run (hang_io 2)) 10 = Inr 2"
    "wait_for (command_run panic_io) 15 = Inl KernelPanicError"
    by (simp_all add: hang_io_def panic_io_def wait_for_def)
  show ?thesis
    using classify_timeout_and_panic [OF t(1), of 15 idle]
      classify_timeout_and_panic [OF t(2), of 15 idle]
      classify_timeout_and_panic [OF t(3), of 15 idle] d p
    by simp
qed

lemma run_test_classified:
  assumes "\<not> stop s" and "write_kmsg io = None"
    and "classify (timeout cfg) io (fire (Test_started t) s) = (s1, Inr out)"
    and "result_data io t out = Inr data"
  shows "results (fst (run_test cfg io t s)) =
           results s @ [read_result cfg t (stdout data) (returncode data) (exec_time data)]"
    and "stop (fst (run_test cfg io t s)) = stop s"
    and "snd (run_test cfg io t s) = raised_for (status out)"
proof -
  have f: "results s1 = results s \<and> stop s1 = stop s"
    using classify_fields [OF assms(3)] by simp
  show "results (fst (run_test cfg io t s)) =
           results s @ [read_result cfg t (stdout data) (returncode data) (exec_time data)]"
    using assms f by (simp add: run_test_def Let_def)
  show "stop (fst (run_test cfg io t s)) = stop s"
    using assms f by (simp add: run_test_def Let_def)
  show "snd (run_test cfg io t s) = raised_for (status out)"
    using assms by (simp add: run_test_def Let_def raised_for_def)
qed

lemma result_data_total:
  assumes "classify tmo io s = (s1, Inr out)"
  shows "\<exists>data. result_data io t out = Inr data
           \<and> (status out \<notin> {STATUS_OK, KERNEL_TAINTED}
                \<longrightarrow> returncode data = - 1 \<and> stdout data = streamed io)
           \<and> (status out \<in> {STATUS_OK, KERNEL_TAINTED} \<longrightarrow> test_data out = Some data)"
  using classify_data [OF assms]
  by (auto simp: result_data_def)

text \<open>
  Claim C1, as amended. Take an attempt that is not skipped, in which \<^verbatim>\<open>_write_kmsg\<close>
  returns and the \<^verbatim>\<open>try\<close> statement ends with a status (its body completes, or raises
  \<^verbatim>\<open>KernelPanicError\<close>, or raises \<^verbatim>\<open>TimeoutError\<close> with the ping then answered or timed
  out). Then exactly one result is appended to the results of the scheduler: the one
  that \<^verbatim>\<open>read_result\<close> builds from the data of the command when the status is \<open>STATUS_OK\<close>
  or \<open>KERNEL_TAINTED\<close>, and from the streamed output with return code \<open>-1\<close> otherwise. The
  scheduler that \<^verbatim>\<open>_run_test\<close> leaves behind when it raises \<^verbatim>\<open>KernelTaintedError\<close>,
  \<^verbatim>\<open>KernelPanicError\<close> or \<^verbatim>\<open>KernelTimeoutError\<close> for the status already holds that result.
\<close>

theorem run_test_records_before_raising:
  assumes "\<not> stop s" and "write_kmsg io = None"
    and "classify (timeout cfg) io (fire (Test_started t) s) = (s1, Inr out)"
  shows "\<exists>data. result_data io t out = Inr data
           \<and> (status out \<notin> {STATUS_OK, KERNEL_TAINTED}
                \<longrightarrow> returncode data = - 1 \<and> stdout data = streamed io)
           \<and> (status out \<in> {STATUS_OK, KERNEL_TAINTED} \<longrightarrow> test_data out = Some data)
           \<and> results (fst (run_test cfg io t s)) =
               results s @ [read_result cfg t (stdout data) (returncode data) (exec_time data)]
           \<and> snd (run_test cfg io t s) = raised_for (status out)"
proof -
  from result_data_total [OF assms(3)] obtain data where
    d: "result_data io t out = Inr data"
      "status out \<notin> {STATUS_OK, KERNEL_TAINTED}
         \<longrightarrow> returncode data = - 1 \<and> stdout data = streamed io"
      "status out \<in> {STATUS_OK, KERNEL_TAINTED} \<longrightarrow> test_data out = Some data"
    by blast
  from run_test_classified [OF assms d(1)] d show ?thesis by blast
qed

text \<open>
  A command that ends with a kernel panic: the result with return code \<open>-1\<close> and the
  streamed output is recorded, and \<^verbatim>\<open>KernelPanicError\<close> is raised.
\<close>

theorem run_test_records_before_raising_witness:
  "results (fst (run_test host_cfg panic_io (mk_test ''oom01'') idle))
     = [by_retcode (mk_test ''oom01'') ''Kernel panic'' (- 1) 2]
   \<and> snd (run_test host_cfg panic_io (mk_test ''oom01'') idle) = Some KernelPanicError"
proof -
  let ?out = "\<lparr>status = KERNEL_PANIC, test_data = None, tainted_msg = None, exec_t = 2\<rparr>"
  let ?s1 = "fire (Test_started (mk_test ''oom01'')) idle"
  have a: "\<not> stop idle" by (simp add: idle_def)
  have b: "write_kmsg panic_io = None"
    by (simp add: write_kmsg_def panic_io_def quiet_io_def)
  have c: "classify (timeout host_cfg) panic_io (fire (Test_started (mk_test ''oom01'')) idle)
             = (?s1, Inr ?out)"
    by (simp add: classify_def try_command_def get_tainted_status_def wait_for_def
        panic_io_def quiet_io_def host_cfg_def)
  have r: "result_data panic_io (mk_test ''oom01'') ?out
             = Inr \<lparr>command = ''oom01'', stdout = ''Kernel panic'', returncode = - 1,
                    exec_time = 2\<rparr>"
    by (simp add: result_data_def panic_io_def mk_test_def)
  show ?thesis
    using run_test_records_before_raising [OF a b c] r
    by (auto simp: raised_for_def idle_def host_cfg_def)
qed

text \<open>
  Claim C1 as stated fails: when the taint state cannot be read, the attempt has started
  (\<open>test_started\<close> is fired), \<^verbatim>\<open>SUTError\<close> leaves \<^verbatim>\<open>_run_test\<close>, and no result is
  appended.
\<close>

theorem run_test_unrecorded_attempt:
  "\<not> stop idle
   \<and> run_test host_cfg unreadable_io (mk_test ''oom01'') idle
       = (\<lparr>results = [], stop = False, fired = [Test_started (mk_test ''oom01'')]\<rparr>,
          Some (SUTError ''Can't read tainted kernel information''))"
  by (simp add: run_test_def write_kmsg_def classify_def try_command_def get_tainted_status_def
      unreadable_io_def quiet_io_def idle_def fire_def)

section \<open>Properties of TestScheduler.schedule\<close>

text \<open>
  One run of \<^verbatim>\<open>_run_test\<close> leaves the results as they were or appends one result; with a
  framework whose \<^verbatim>\<open>read_result\<close> returns a result for the test it is given, that result
  is one of the test that was run.
\<close>

lemma run_test_appends:
  assumes "run_test cfg io t s = (s', r)"
    and "\<forall>t out rc et. test (read_result cfg t out rc et) = t"
  shows "stop s' = stop s \<and>
         (\<exists>rs. results s' = results s @ rs \<and> set (map test rs) \<subseteq> {t} \<and> length rs \<le> 1)"
proof (cases "stop s")
  case True
  with assms show ?thesis by (simp add: run_test_def)
next
  case False
  let ?s0 = "fire (Test_started t) s"
  show ?thesis
  proof (cases "write_kmsg io")
    case (Some err)
    with assms False show ?thesis by (auto simp: run_test_def Let_def)
  next
    case None
    obtain s1 c where c: "classify (timeout cfg) io ?s0 = (s1, c)"
      by (cases "classify (timeout cfg) io ?s0")
    have f: "results s1 = results s \<and> stop s1 = stop s"
      using classify_fields [OF c] by simp
    show ?thesis
    proof (cases c)
      case (Inl err)
      with assms False None c f show ?thesis by (auto simp: run_test_def Let_def)
    next
      case (Inr out)
      show ?thesis
      proof (cases "result_data io t out")
        case (Inl err)
        with assms False None c f Inr show ?thesis by (auto simp: run_test_def Let_def)
      next
        case data: (Inr data)
        from c Inr have c': "classify (timeout cfg) io ?s0 = (s1, Inr out)" by simp
        have "fst (run_test cfg io t s) = s'" using assms(1) by simp
        with run_test_classified(1,2) [OF False None c' data]
        have "results s' = results s @
                [read_result cfg t (stdout data) (returncode data) (exec_time data)]"
          and "stop s' = stop s"
          by simp_all
        with assms(2) show ?thesis by auto
      qed
    qed
  qed
qed

lemma run_and_wait_appends:
  assumes "run_and_wait cfg io ts s = (s', r)"
    and "\<forall>t out rc et. test (read_result cfg t out rc et) = t"
  shows "stop s' = stop s \<and>
         (\<exists>rs. results s' = results s @ rs \<and> set (map test rs) \<subseteq> set ts
               \<and> (distinct ts \<longrightarrow> distinct (map test rs)))"
  using assms(1)
proof (induction ts arbitrary: s)
  case Nil
  then show ?case by simp
next
  case (Cons t ts)
  obtain s1 r1 where rt: "run_test cfg (attempt io t) t s = (s1, r1)"
    by (cases "run_test cfg (attempt io t) t s")
  from run_test_appends [OF rt assms(2)] obtain rs1 where
    one: "stop s1 = stop s" "results s1 = results s @ rs1" "set (map test rs1) \<subseteq> {t}"
      "length rs1 \<le> 1"
    by blast
  have d1: "distinct (map test rs1)" using one(4) by (cases rs1) auto
  show ?case
  proof (cases r1)
    case (Some err)
    with Cons.prems rt have "s' = s1" by simp
    with one d1 show ?thesis by auto
  next
    case None
    with Cons.prems rt have "run_and_wait cfg io ts s1 = (s', r)" by simp
    from Cons.IH [OF this] obtain rs where
      rest: "stop s' = stop s1" "results s' = results s1 @ rs" "set (map test rs) \<subseteq> set ts"
        "distinct ts \<longrightarrow> distinct (map test rs)"
      by blast
    have "results s' = results s @ (rs1 @ rs)" using one rest by simp
    moreover have "set (map test (rs1 @ rs)) \<subseteq> set (t # ts)" using one rest by auto
    moreover have "distinct (t # ts) \<longrightarrow> distinct (map test (rs1 @ rs))"
      using one(3) rest(3,4) d1 by auto
    ultimately show ?thesis using one(1) rest(1) by metis
  qed
qed

lemma finish_tasks_appends:
  assumes "finish_tasks cfg io ts raised s = (s', r)"
    and "\<forall>t out rc et. test (read_result cfg t out rc et) = t"
  shows "stop s' = stop s \<and>
         (\<exists>rs. results s' = results s @ rs \<and> set (map test rs) \<subseteq> set ts
               \<and> (distinct ts \<longrightarrow> distinct (map test rs)))"
  using assms(1)
proof (induction ts arbitrary: s raised)
  case Nil
  then show ?case by simp
next
  case (Cons t ts)
  show ?case
  proof (cases "raised \<noteq> None \<and> \<not> finishes_anyway io t")
    case True
    with Cons.prems have "finish_tasks cfg io ts raised s = (s', r)" by simp
    from Cons.IH [OF this] show ?thesis by auto
  next
    case False
    obtain s1 r1 where rt: "run_test cfg (attempt io t) t s = (s1, r1)"
      by (cases "run_test cfg (attempt io t) t s")
    from run_test_appends [OF rt assms(2)] obtain rs1 where
      one: "stop s1 = stop s" "results s1 = results s @ rs1" "set (map test rs1) \<subseteq> {t}"
        "length rs1 \<le> 1"
      by blast
    have d1: "distinct (map test rs1)" using one(4) by (cases rs1) auto
    from Cons.prems rt False
    have "finish_tasks cfg io ts (if raised = None then r1 else raised) s1 = (s', r)"
      by auto
    from Cons.IH [OF this] obtain rs where
      rest: "stop s' = stop s1" "results s' = results s1 @ rs" "set (map test rs) \<subseteq> set ts"
        "distinct ts \<longrightarrow> distinct (map test rs)"
      by blast
    have "results s' = results s @ (rs1 @ rs)" using one rest by simp
    moreover have "set (map test (rs1 @ rs)) \<subseteq> set (t # ts)" using one rest by auto
    moreover have "distinct (t # ts) \<longrightarrow> distinct (map test (rs1 @ rs))"
      using one(3) rest(3,4) d1 by auto
    ultimately show ?thesis using one(1) rest(1) by metis
  qed
qed

lemma run_parallel_appends:
  assumes "run_parallel cfg io ts s = (s', r)"
    and "\<forall>t out rc et. test (read_result cfg t out rc et) = t"
  shows "stop s' = stop s \<and>
         (\<exists>rs. results s' = results s @ rs \<and> set (map test rs) \<subseteq> set ts
               \<and> (distinct ts \<longrightarrow> distinct (map test rs)))"
  using finish_tasks_appends [OF assms(1) [unfolded run_parallel_def] assms(2)]
  by simp

text \<open>
  The results after a call of \<^verbatim>\<open>schedule\<close> with a non-empty list of jobs belong to the
  jobs, with at most one result for each job.
\<close>

lemma schedule_results:
  assumes "schedule cfg io jobs s = (s', r)" and "jobs \<noteq> []"
    and "\<forall>t out rc et. test (read_result cfg t out rc et) = t"
  shows "stop s' = stop s \<and> set (map test (results s')) \<subseteq> set jobs
         \<and> (distinct jobs \<longrightarrow> distinct (map test (results s')))"
proof -
  let ?s0 = "s\<lparr>results := []\<rparr>"
  define body where "body =
    (if force_parallel cfg then run_parallel cfg io jobs ?s0
     else (case run_parallel cfg io (filter parallelizable jobs) ?s0 of
             (s, Some err) \<Rightarrow> (s, Some err)
           | (s, None) \<Rightarrow> run_and_wait cfg io (filter (\<lambda>t. \<not> parallelizable t) jobs) s))"
  obtain s1 r1 where b: "body = (s1, r1)" by (cases body)
  have s': "s' = s1"
    using assms(1,2) b unfolding schedule_def body_def
    by (auto simp: Let_def split: option.splits if_splits)
  have "stop s1 = stop s \<and> set (map test (results s1)) \<subseteq> set jobs
         \<and> (distinct jobs \<longrightarrow> distinct (map test (results s1)))"
  proof (cases "force_parallel cfg")
    case True
    with b have "run_parallel cfg io jobs ?s0 = (s1, r1)" by (simp add: body_def)
    from run_parallel_appends [OF this assms(3)] show ?thesis by auto
  next
    case False
    obtain sp rp where p: "run_parallel cfg io (filter parallelizable jobs) ?s0 = (sp, rp)"
      by (cases "run_parallel cfg io (filter parallelizable jobs) ?s0")
    from run_parallel_appends [OF p assms(3)] obtain rsp where
      par0: "stop sp = stop ?s0" "results sp = results ?s0 @ rsp"
        "set (map test rsp) \<subseteq> set (filter parallelizable jobs)"
        "distinct (filter parallelizable jobs) \<longrightarrow> distinct (map test rsp)"
      by blast
    then have par: "stop sp = stop s" "results sp = rsp"
        "set (map test rsp) \<subseteq> set (filter parallelizable jobs)"
        "distinct jobs \<longrightarrow> distinct (map test rsp)"
      by simp_all
    show ?thesis
    proof (cases rp)
      case (Some err)
      with b p False have "s1 = sp" by (simp add: body_def)
      with par show ?thesis by auto
    next
      case None
      with b p False
      have "run_and_wait cfg io (filter (\<lambda>t. \<not> parallelizable t) jobs) sp = (s1, r1)"
        by (simp add: body_def)
      from run_and_wait_appends [OF this assms(3)] obtain rsq where
        seq0: "stop s1 = stop sp" "results s1 = results sp @ rsq"
          "set (map test rsq) \<subseteq> set (filter (\<lambda>t. \<not> parallelizable t) jobs)"
          "distinct (filter (\<lambda>t. \<not> parallelizable t) jobs) \<longrightarrow> distinct (map test rsq)"
        by blast
      then have seq: "stop s1 = stop sp" "results s1 = results sp @ rsq"
          "set (map test rsq) \<subseteq> set (filter (\<lambda>t. \<not> parallelizable t) jobs)"
          "distinct jobs \<longrightarrow> distinct (map test rsq)"
        by simp_all
      have "set (map test rsp) \<inter> set (map test rsq) = {}"
        using par(3) seq(3) by auto
      with par seq show ?thesis by auto
    qed
  qed
  with s' show ?thesis by simp
qed

section \<open>Properties of SuiteScheduler._run_suite\<close>

lemma result_names_append [simp]:
  "result_names (rs @ rs') = result_names rs @ result_names rs'"
  by (simp add: result_names_def)

lemma result_names_skipped [simp]: "result_names (map skipped_result ts) = map name ts"
  by (simp add: result_names_def skipped_result_def comp_def)

lemma in_not_found:
  "t \<in> set (not_found ts rs) \<longleftrightarrow> t \<in> set ts \<and> name t \<notin> set (result_names rs)"
  by (auto simp: not_found_def result_names_def list_ex_iff)

lemma not_found_Nil [simp]: "not_found ts [] = ts"
  by (simp add: not_found_def)

lemma restart_sut_fields:
  "restart_sut cfg io k s = (s', r) \<Longrightarrow> results s' = results s \<and> stop s' = stop s"
  by (auto simp: restart_sut_def Let_def split: option.splits)

text \<open>
  One pass through the inner \<^verbatim>\<open>try\<close> statement appends the results of the scheduler,
  which belong to tests that were left, one result for a test at most.
\<close>

lemma schedule_tests_step:
  assumes "schedule_tests cfg io su k run s = (run', s', r)" and "tests_left run \<noteq> []"
    and "\<forall>t out rc et. test (read_result cfg t out rc et) = t"
  shows "stop s' = stop s" and "tests_left run' = tests_left run"
    and "tests_results run' = tests_results run @ results s'"
    and "set (map test (results s')) \<subseteq> set (tests_left run)"
    and "distinct (tests_left run) \<longrightarrow> distinct (map test (results s'))"
proof -
  obtain s1 raised where sc: "schedule cfg (schedule_r io k) (tests_left run) s = (s1, raised)"
    by (cases "schedule cfg (schedule_r io k) (tests_left run) s")
  from schedule_results [OF sc assms(2,3)] have
    s1: "stop s1 = stop s" "set (map test (results s1)) \<subseteq> set (tests_left run)"
      "distinct (tests_left run) \<longrightarrow> distinct (map test (results s1))"
    by simp_all
  obtain s2 r2 where rs: "restart_sut cfg io k s1 = (s2, r2)"
    by (cases "restart_sut cfg io k s1")
  have s2: "results s2 = results s1 \<and> stop s2 = stop s1"
    using rs by (rule restart_sut_fields)
  from assms(1) sc rs
  have "results s' = results s1 \<and> stop s' = stop s1 \<and> tests_left run' = tests_left run
        \<and> tests_results run' = tests_results run @ results s'"
    using s2
    by (auto simp: schedule_tests_def split: option.splits if_splits)
  with s1 show "stop s' = stop s" and "tests_left run' = tests_left run"
    and "tests_results run' = tests_results run @ results s'"
    and "set (map test (results s')) \<subseteq> set (tests_left run)"
    and "distinct (tests_left run) \<longrightarrow> distinct (map test (results s'))"
    by simp_all
qed

lemma new_results_names:
  assumes "distinct (map name ts)"
    and "distinct (result_names old)"
    and "set (result_names old) \<subseteq> set (map name ts)"
    and "set (map test new) \<subseteq> set (not_found ts old)"
    and "distinct (map test new)"
  shows "distinct (result_names (old @ new)) \<and> set (result_names (old @ new)) \<subseteq> set (map name ts)"
proof -
  have inj: "inj_on name (set ts)" using assms(1) by (simp add: distinct_map)
  have sub: "set (map test new) \<subseteq> set ts" using assms(4) by (auto simp: in_not_found)
  have rn: "result_names new = map name (map test new)" by (simp add: result_names_def)
  have "inj_on name (set (map test new))" using inj sub by (rule inj_on_subset)
  with assms(5) have "distinct (map test new) \<and> inj_on name (set (map test new))" by blast
  then have "distinct (map name (map test new))" by (rule iffD2 [OF distinct_map])
  then have d: "distinct (result_names new)" unfolding rn .
  have "set (result_names new) \<inter> set (result_names old) = {}"
  proof -
    have "name t \<notin> set (result_names old)" if "t \<in> set (map test new)" for t
      using that assms(4) by (auto simp: in_not_found)
    then show ?thesis unfolding rn by auto
  qed
  moreover have "set (result_names new) \<subseteq> set (map name ts)"
    unfolding rn using sub by auto
  ultimately show ?thesis using d assms(2,3) by auto
qed

lemma all_found_names:
  assumes "not_found ts rs = []" and "set (result_names rs) \<subseteq> set (map name ts)"
  shows "set (result_names rs) = set (map name ts)"
proof
  show "set (result_names rs) \<subseteq> set (map name ts)" by (rule assms(2))
  show "set (map name ts) \<subseteq> set (result_names rs)"
  proof
    fix n assume "n \<in> set (map name ts)"
    then obtain t where t: "t \<in> set ts" "n = name t" by auto
    from assms(1) have "t \<notin> set (not_found ts rs)" by simp
    with t show "n \<in> set (result_names rs)" by (simp add: in_not_found)
  qed
qed

lemma skipped_rest_names:
  assumes "distinct (map name ts)" and "distinct (result_names rs)"
    and "set (result_names rs) \<subseteq> set (map name ts)"
  shows "distinct (result_names (rs @ map skipped_result (not_found ts rs)))
         \<and> set (result_names (rs @ map skipped_result (not_found ts rs))) = set (map name ts)"
proof -
  have d: "distinct (map name (not_found ts rs))"
    using assms(1) unfolding not_found_def by (rule distinct_map_filter)
  have dis: "set (result_names rs) \<inter> set (map name (not_found ts rs)) = {}"
    by (auto simp: in_not_found)
  have "set (map name ts) \<subseteq> set (result_names rs) \<union> set (map name (not_found ts rs))"
  proof
    fix n assume "n \<in> set (map name ts)"
    then obtain t where t: "t \<in> set ts" "n = name t" by auto
    show "n \<in> set (result_names rs) \<union> set (map name (not_found ts rs))"
    proof (cases "n \<in> set (result_names rs)")
      case True
      then show ?thesis by simp
    next
      case False
      with t have "t \<in> set (not_found ts rs)" by (simp add: in_not_found)
      with t show ?thesis by auto
    qed
  qed
  moreover have "set (map name (not_found ts rs)) \<subseteq> set (map name ts)"
    by (auto simp: in_not_found)
  ultimately show ?thesis using d dis assms(2,3) by auto
qed

text \<open>
  When the loop ends without an exception and without a stop request, the collected
  results have distinct test names, and these are the names of the tests of the suite.
\<close>

lemma suite_loop_complete:
  assumes "suite_loop fuel cfg io su k run sch = Some (run', sch', None)"
    and "distinct (result_names (tests_results run))"
    and "set (result_names (tests_results run)) \<subseteq> set (map name (tests su))"
    and "tests_left run = not_found (tests su) (tests_results run)"
    and "\<not> suite_stop sch"
    and "distinct (map name (tests su))"
    and "\<forall>t out rc et. test (read_result cfg t out rc et) = t"
  shows "distinct (result_names (tests_results run'))
         \<and> set (result_names (tests_results run')) = set (map name (tests su))"
  using assms(1-5)
proof (induction fuel arbitrary: k run sch)
  case 0
  then show ?case by simp
next
  case (Suc fuel)
  note inv = Suc.prems(2-4) and nostop = Suc.prems(5)
  show ?case
  proof (cases "tests_left run = []")
    case True
    with Suc.prems(1) have "run' = run" by simp
    with True inv all_found_names show ?thesis by auto
  next
    case False
    obtain run1 s1 r1 where st: "schedule_tests cfg io su k run (scheduler sch) = (run1, s1, r1)"
      by (cases "schedule_tests cfg io su k run (scheduler sch)") auto
    note step = schedule_tests_step [OF st False assms(7)]
    have dl: "distinct (tests_left run)"
      using assms(6) inv(3) by (simp add: not_found_def distinct_map)
    have new: "distinct (result_names (tests_results run1))
               \<and> set (result_names (tests_results run1)) \<subseteq> set (map name (tests su))"
      unfolding step(3)
    proof (rule new_results_names [OF assms(6) inv(1) inv(2)])
      show "set (map test (results s1)) \<subseteq> set (not_found (tests su) (tests_results run))"
        using step(4) inv(3) by simp
      show "distinct (map test (results s1))" using step(5) dl by simp
    qed
    show ?thesis
    proof (cases r1)
      case (Some err)
      with Suc.prems(1) False nostop st show ?thesis by simp
    next
      case None
      let ?run2 = "run1\<lparr>tests_left := not_found (tests su) (tests_results run1)\<rparr>"
      let ?sch2 = "sch\<lparr>scheduler := s1\<rparr>"
      show ?thesis
      proof (cases "timed_out run1")
        case True
        with Suc.prems(1) False nostop st None
        have "tests_results run' = tests_results run1
                @ map skipped_result (not_found (tests su) (tests_results run1))"
          by (auto simp: Let_def)
        with skipped_rest_names [OF assms(6)] new show ?thesis by simp
      next
        case nt: False
        with Suc.prems(1) False nostop st None
        have rec: "suite_loop fuel cfg io su (Suc k) ?run2 ?sch2 = Some (run', sch', None)"
          by (simp add: Let_def)
        show ?thesis
          by (rule Suc.IH [OF rec]) (use new nostop in simp_all)
      qed
    qed
  qed
qed

lemma suite_loop_fields:
  "suite_loop fuel cfg io su k run sch = Some (run', sch', r) \<Longrightarrow>
   suite_results sch' = suite_results sch \<and> suite_stop sch' = suite_stop sch"
proof (induction fuel arbitrary: k run sch)
  case 0
  then show ?case by simp
next
  case (Suc fuel)
  show ?case
  proof (cases "suite_stop sch \<or> tests_left run = []")
    case True
    with Suc.prems show ?thesis by auto
  next
    case False
    obtain run1 s1 r1 where st: "schedule_tests cfg io su k run (scheduler sch) = (run1, s1, r1)"
      by (cases "schedule_tests cfg io su k run (scheduler sch)") auto
    show ?thesis
    proof (cases r1)
      case (Some err)
      with Suc.prems False st show ?thesis by auto
    next
      case None
      show ?thesis
      proof (cases "timed_out run1")
        case True
        with Suc.prems False st None show ?thesis by (auto simp: Let_def)
      next
        case nt: False
        with Suc.prems False st None
        have "suite_loop fuel cfg io su (Suc k)
                (run1\<lparr>tests_left := not_found (tests su) (tests_results run1)\<rparr>)
                (sch\<lparr>scheduler := s1\<rparr>) = Some (run', sch', r)"
          by (simp add: Let_def)
        from Suc.IH [OF this] show ?thesis by simp
      qed
    qed
  qed
qed

text \<open>
  Claim C2. Let \<^verbatim>\<open>SuiteScheduler.schedule([S])\<close> return without an exception, with no stop
  requested, for a suite whose tests have distinct names and a framework whose
  \<^verbatim>\<open>read_result\<close> returns a result for the test it is given. Then the suite results hold
  one \<^verbatim>\<open>SuiteResults\<close> for \<open>S\<close>, whose test results have distinct test names, and these
  names are the names of the tests of \<open>S\<close>. Kernel errors and restarts on the way are
  covered: the statement is about every run of the loop that ends.
\<close>

theorem suite_schedule_one_result_per_test:
  assumes "suite_schedule fuel cfg ios [su] sch = Some (sch', None)"
    and "\<not> suite_stop sch"
    and "distinct (map name (tests su))"
    and "\<forall>t out rc et. test (read_result cfg t out rc et) = t"
  shows "\<exists>sr. suite_results sch' = [sr] \<and> suite sr = su
           \<and> distinct (result_names (sr_tests sr))
           \<and> set (result_names (sr_tests sr)) = set (map name (tests su))"
proof -
  let ?sch0 = "sch\<lparr>suite_results := []\<rparr>"
  let ?sch1 = "?sch0\<lparr>scheduler := fire (Suite_started su) (scheduler ?sch0)\<rparr>"
  let ?run0 = "first_run su"
  from assms(1) have rs: "run_suite fuel cfg (ios 0) su ?sch0 = Some (sch', None)"
    by (auto simp: suite_schedule_def split: option.splits prod.splits)
  then obtain info where info: "get_info (probes (ios 0)) = Inr info"
    by (cases "get_info (probes (ios 0))") (auto simp: run_suite_def Let_def)
  from rs info obtain run schl where
    loop: "suite_loop fuel cfg (ios 0) su 0 ?run0 ?sch1 = Some (run, schl, None)"
    by (cases "suite_loop fuel cfg (ios 0) su 0 ?run0 ?sch1")
      (auto simp: run_suite_def Let_def)
  from suite_loop_fields [OF loop] have sl: "suite_results schl = []" by simp
  have names: "distinct (result_names (tests_results run))
      \<and> set (result_names (tests_results run)) = set (map name (tests su))"
    by (rule suite_loop_complete [OF loop _ _ _ _ assms(3,4)])
      (use assms(2) in \<open>simp_all add: result_names_def first_run_def\<close>)
  from rs info loop sl
  have "\<exists>sr. suite_results sch' = [sr] \<and> suite sr = su \<and> sr_tests sr = tests_results run"
    by (auto simp: run_suite_def Let_def)
  with names show ?thesis by auto
qed

lemma get_info_no_meminfo:
  "get_info no_meminfo =
     Inr \<lparr>distro = ''alpine'', distro_ver = ''3.19'', kernel = ''Linux 6.6 #1 SMP'',
          arch = ''x86_64'', cpu = ''unknown'', ram = ''unknown'', swap = ''unkown''\<rparr>"
  by (simp add: get_info_def no_meminfo_def probe_reply_def run_cmd_def wait_for_def rstrip_def
      Let_def is_space_def match_total_kb_def startswith_def)

lemma run_test_quiet:
  "run_test host_cfg quiet_io t \<lparr>results = rs, stop = False, fired = evs\<rparr>
   = (\<lparr>results = rs @ [by_retcode t ''done'' 0 1], stop = False,
       fired = evs @ [Test_started t, Test_completed (by_retcode t ''done'' 0 1)]\<rparr>, None)"
  by (simp add: run_test_def write_kmsg_def classify_def try_command_def get_tainted_status_def
      wait_for_def result_data_def quiet_io_def host_cfg_def fire_def Let_def)

lemma run_test_panic:
  "run_test host_cfg panic_io t \<lparr>results = rs, stop = False, fired = evs\<rparr>
   = (\<lparr>results = rs @ [by_retcode t ''Kernel panic'' (- 1) 2], stop = False,
       fired = evs @ [Test_started t, Kernel_panic]\<rparr>, Some KernelPanicError)"
  by (simp add: run_test_def write_kmsg_def classify_def try_command_def get_tainted_status_def
      wait_for_def result_data_def panic_io_def quiet_io_def host_cfg_def fire_def Let_def)

lemma by_retcode_test: "\<forall>t out rc et. test (read_result host_cfg t out rc et) = t"
  by (simp add: host_cfg_def by_retcode_def)

lemma reconnects_at_once:
  "snd (ensure_communicate \<lparr>communicate_r = (\<lambda>k. None), stop_r = (\<lambda>k. None)\<rparr> 10) = None"
proof -
  have "communicate_loop \<lparr>communicate_r = (\<lambda>k. None), stop_r = (\<lambda>k. None)\<rparr> 10 (nat 10) 0
          = (concat (replicate 0 [Communicate, Stop]) @ [Communicate], None)"
    by (rule communicate_loop_success) simp_all
  then show ?thesis by (simp add: ensure_communicate_def)
qed

lemma never_reconnects:
  assumes "is_KirkException e"
  shows "snd (ensure_communicate \<lparr>communicate_r = (\<lambda>k. Some e), stop_r = (\<lambda>k. None)\<rparr> 10)
           = Some e"
proof -
  let ?io = "\<lparr>communicate_r = (\<lambda>k. Some e), stop_r = (\<lambda>k. None)\<rparr>"
  have "communicate_loop ?io 10 (nat 10) 0
          = (concat (replicate (nat 10 - 1) [Communicate, Stop]) @ [Communicate],
             communicate_r ?io (0 + nat 10 - 1))"
    by (rule communicate_loop_exhausted) (use assms in simp_all)
  then show ?thesis by (simp add: ensure_communicate_def)
qed

lemma reboot_run:
  "\<exists>sch'. suite_schedule 3 host_cfg (\<lambda>i. reboot_io) [two_tests] fresh = Some (sch', None)"
  by (simp add: suite_schedule_def run_suite_def get_info_no_meminfo schedule_tests_def
      schedule_def run_parallel_def run_test_quiet run_test_panic restart_sut_def
      reconnects_at_once wait_for_schedule_def is_kernel_error_def not_found_def
      first_run_def reboot_io_def in_order_def two_tests_def mk_test_def fresh_def idle_def
      fire_def by_retcode_def Let_def numeral_3_eq_3)

text \<open>
  A run with a reboot: the first test ends with a kernel panic and is recorded, the SUT is
  restarted, and the second call of \<^verbatim>\<open>schedule\<close> runs the test that was left.
\<close>

theorem suite_schedule_one_result_per_test_witness:
  "\<exists>sch' sr. suite_schedule 3 host_cfg (\<lambda>i. reboot_io) [two_tests] fresh = Some (sch', None)
      \<and> suite_results sch' = [sr] \<and> suite sr = two_tests
      \<and> distinct (result_names (sr_tests sr))
      \<and> set (result_names (sr_tests sr)) = {''oom01'', ''oom02''}"
proof -
  from reboot_run obtain sch' where
    r: "suite_schedule 3 host_cfg (\<lambda>i. reboot_io) [two_tests] fresh = Some (sch', None)" ..
  have a: "\<not> suite_stop fresh" by (simp add: fresh_def)
  have b: "distinct (map name (tests two_tests))" by (simp add: two_tests_def mk_test_def)
  from suite_schedule_one_result_per_test [OF r a b by_retcode_test] obtain sr where
    "suite_results sch' = [sr]" "suite sr = two_tests" "distinct (result_names (sr_tests sr))"
    "set (result_names (sr_tests sr)) = set (map name (tests two_tests))"
    by blast
  with r show ?thesis by (auto simp: two_tests_def mk_test_def)
qed

subsection \<open>The suite timeout\<close>

lemma suite_loop_timeout:
  assumes "\<not> suite_stop sch" and "tests_left run \<noteq> []"
    and "schedule cfg (schedule_r io k) (tests_left run) (scheduler sch) = (s1, raised)"
    and "wait_for_schedule raised = Some TimeoutError"
  shows "suite_loop (Suc fuel) cfg io su k run sch =
           Some (run\<lparr>timed_out := True,
                     tests_results := tests_results run @ results s1
                        @ map skipped_result (not_found (tests su) (tests_results run @ results s1)),
                     tests_left := []\<rparr>,
                 sch\<lparr>scheduler := fire (Suite_timeout su (suite_timeout cfg)) s1\<rparr>, None)"
  using assms by (simp add: schedule_tests_def Let_def)

lemma run_test_cancelled:
  assumes "\<not> stop s" and "cancelled_in_command cfg io"
  shows "\<exists>s'. run_test cfg io t s = (s', Some CancelledError)
           \<and> results s' = results s \<and> stop s' = stop s"
proof -
  let ?s0 = "fire (Test_started t) s"
  from assms(2) obtain tb where
    c: "write_kmsg io = None" "tainted_before io = Inr tb"
      "wait_for (command_run io) (timeout cfg) = Inl CancelledError"
    by (auto simp: cancelled_in_command_def)
  obtain s1 r1 where t: "try_command (timeout cfg) io ?s0 = (s1, r1)"
    by (cases "try_command (timeout cfg) io ?s0")
  from try_command_raises [OF c(2,3), of ?s0] t have r1: "r1 = Inl CancelledError" by simp
  from try_command_fields [OF t] have f: "results s1 = results s" "stop s1 = stop s"
    by simp_all
  from t r1 have "classify (timeout cfg) io ?s0 = (s1, Inl CancelledError)"
    by (simp add: classify_def)
  with assms(1) c(1) have "run_test cfg io t s = (s1, Some CancelledError)"
    by (simp add: run_test_def Let_def)
  with f show ?thesis by simp
qed

lemma run_and_wait_cancelled:
  assumes "ts \<noteq> []" and "\<not> stop s"
    and "\<forall>t\<in>set ts. cancelled_in_command cfg (attempt io t)"
  shows "\<exists>s'. run_and_wait cfg io ts s = (s', Some CancelledError)
           \<and> results s' = results s \<and> stop s' = stop s"
proof -
  from assms(1) obtain t ts' where ts: "ts = t # ts'" by (cases ts) auto
  with assms(3) have "cancelled_in_command cfg (attempt io t)" by simp
  from run_test_cancelled [OF assms(2) this, of t] ts show ?thesis by auto
qed

lemma finish_tasks_cancelled:
  assumes "\<not> stop s"
    and "\<forall>t\<in>set ts. cancelled_in_command cfg (attempt io t)"
    and "raised = None \<and> ts \<noteq> [] \<or> raised = Some CancelledError"
  shows "\<exists>s'. finish_tasks cfg io ts raised s = (s', Some CancelledError)
           \<and> results s' = results s \<and> stop s' = stop s"
  using assms
proof (induction ts arbitrary: s raised)
  case Nil
  then show ?case by auto
next
  case (Cons t ts)
  show ?case
  proof (cases "raised \<noteq> None \<and> \<not> finishes_anyway io t")
    case True
    with Cons.prems(3) have r: "raised = Some CancelledError" by auto
    have "\<exists>s'. finish_tasks cfg io ts raised s = (s', Some CancelledError)
            \<and> results s' = results s \<and> stop s' = stop s"
      by (rule Cons.IH) (use Cons.prems r in auto)
    with True show ?thesis by simp
  next
    case False
    from Cons.prems(2) have "cancelled_in_command cfg (attempt io t)" by simp
    from run_test_cancelled [OF Cons.prems(1) this, of t] obtain s1 where
      s1: "run_test cfg (attempt io t) t s = (s1, Some CancelledError)"
        "results s1 = results s" "stop s1 = stop s"
      by blast
    have r': "(if raised = None then Some CancelledError else raised) = Some CancelledError"
      using Cons.prems(3) by auto
    have "\<exists>s'. finish_tasks cfg io ts (Some CancelledError) s1 = (s', Some CancelledError)
            \<and> results s' = results s1 \<and> stop s' = stop s1"
      by (rule Cons.IH) (use Cons.prems s1 in auto)
    with False s1 r' show ?thesis by auto
  qed
qed

lemma sort_key_eq_Nil [simp]: "sort_key f xs = [] \<longleftrightarrow> xs = []"
  by (metis length_sort length_0_conv)

lemma schedule_cancelled:
  assumes "jobs \<noteq> []" and "\<not> stop s"
    and "\<forall>t\<in>set jobs. cancelled_in_command cfg (attempt io t)"
  shows "\<exists>s'. schedule cfg io jobs s = (s', Some CancelledError)
           \<and> results s' = [] \<and> stop s' = stop s"
proof -
  let ?s0 = "s\<lparr>results := []\<rparr>"
  have ns: "\<not> stop ?s0" using assms(2) by simp
  show ?thesis
  proof (cases "force_parallel cfg")
    case True
    have "\<exists>s'. finish_tasks cfg io (sort_key (finish_rank io) jobs) None ?s0
                  = (s', Some CancelledError) \<and> results s' = results ?s0 \<and> stop s' = stop ?s0"
      by (rule finish_tasks_cancelled [OF ns]) (use assms in auto)
    with True assms(1,2) show ?thesis
      by (auto simp: schedule_def run_parallel_def Let_def)
  next
    case False
    show ?thesis
    proof (cases "filter parallelizable jobs = []")
      case par: False
      have "\<exists>s'. finish_tasks cfg io (sort_key (finish_rank io) (filter parallelizable jobs))
                    None ?s0
                  = (s', Some CancelledError) \<and> results s' = results ?s0 \<and> stop s' = stop ?s0"
      proof (rule finish_tasks_cancelled [OF ns])
        show "\<forall>t\<in>set (sort_key (finish_rank io) (filter parallelizable jobs)).
                cancelled_in_command cfg (attempt io t)"
          using assms(3) by simp
        show "None = None \<and> sort_key (finish_rank io) (filter parallelizable jobs) \<noteq> []
                   \<or> None = Some CancelledError"
          using par by simp
      qed
      with False assms(2) assms(1) show ?thesis
        by (auto simp: schedule_def run_parallel_def Let_def)
    next
      case par: True
      then have seq: "filter (\<lambda>t. \<not> parallelizable t) jobs = jobs"
        by (simp add: filter_empty_conv)
      from run_and_wait_cancelled [OF assms(1) ns, of cfg io] assms(3)
      obtain s' where "run_and_wait cfg io jobs ?s0 = (s', Some CancelledError)"
        "results s' = []" "stop s' = stop s"
        by auto
      with False par seq assms(1,2) show ?thesis
        by (simp add: schedule_def run_parallel_def Let_def)
    qed
  qed
qed

text \<open>
  Claim C8. When the call of \<^verbatim>\<open>schedule\<close> in some iteration of the loop ends with the
  suite timeout, the loop ends in that iteration without an exception: the collected
  results are those collected before, then those of the scheduler, then one synthetic
  result for each test of the suite whose name is among neither. A synthetic result has
  return code 32, \<open>skipped = 1\<close> and all other counts 0. In particular, when every test
  needs longer than the suite timeout, so that each attempt that has started is cancelled
  while its command runs, the \<^verbatim>\<open>SuiteResults\<close> that \<^verbatim>\<open>_run_suite\<close> appends holds the
  synthetic result of every test of the suite, in the order of the suite.
\<close>

theorem suite_timeout_skips_the_rest:
  "(\<not> suite_stop sch \<and> tests_left run \<noteq> []
      \<and> schedule cfg (schedule_r io k) (tests_left run) (scheduler sch) = (s1, raised)
      \<and> wait_for_schedule raised = Some TimeoutError
    \<longrightarrow> (\<exists>run' sch'. suite_loop (Suc fuel) cfg io su k run sch = Some (run', sch', None)
           \<and> tests_left run' = []
           \<and> tests_results run' = tests_results run @ results s1
               @ map skipped_result (not_found (tests su) (tests_results run @ results s1))))
   \<and> (\<forall>t. test (skipped_result t) = t \<and> retcode (skipped_result t) = 32
          \<and> skipped (skipped_result t) = 1 \<and> failed (skipped_result t) = 0
          \<and> passed (skipped_result t) = 0 \<and> broken (skipped_result t) = 0
          \<and> warnings (skipped_result t) = 0)
   \<and> (get_info (probes io) = Inr info \<and> \<not> suite_stop sch0 \<and> \<not> stop (scheduler sch0)
      \<and> tests su \<noteq> []
      \<and> (\<forall>t\<in>set (tests su). cancelled_in_command cfg (attempt (schedule_r io 0) t))
    \<longrightarrow> (\<exists>sch' sr. run_suite (Suc fuel) cfg io su sch0 = Some (sch', None)
           \<and> suite_results sch' = suite_results sch0 @ [sr]
           \<and> sr_tests sr = map skipped_result (tests su)))"
proof (intro conjI impI allI)
  fix t
  show "test (skipped_result t) = t" "retcode (skipped_result t) = 32"
    "skipped (skipped_result t) = 1" "failed (skipped_result t) = 0"
    "passed (skipped_result t) = 0" "broken (skipped_result t) = 0"
    "warnings (skipped_result t) = 0"
    by (simp_all add: skipped_result_def)
next
  assume "\<not> suite_stop sch \<and> tests_left run \<noteq> []
      \<and> schedule cfg (schedule_r io k) (tests_left run) (scheduler sch) = (s1, raised)
      \<and> wait_for_schedule raised = Some TimeoutError"
  then have a: "\<not> suite_stop sch" and b: "tests_left run \<noteq> []"
    and c: "schedule cfg (schedule_r io k) (tests_left run) (scheduler sch) = (s1, raised)"
    and d: "wait_for_schedule raised = Some TimeoutError"
    by simp_all
  have "suite_loop (Suc fuel) cfg io su k run sch =
           Some (run\<lparr>timed_out := True,
                     tests_results := tests_results run @ results s1
                        @ map skipped_result (not_found (tests su) (tests_results run @ results s1)),
                     tests_left := []\<rparr>,
                 sch\<lparr>scheduler := fire (Suite_timeout su (suite_timeout cfg)) s1\<rparr>, None)"
    by (rule suite_loop_timeout [OF a b c d])
  then show "\<exists>run' sch'. suite_loop (Suc fuel) cfg io su k run sch = Some (run', sch', None)
           \<and> tests_left run' = []
           \<and> tests_results run' = tests_results run @ results s1
               @ map skipped_result (not_found (tests su) (tests_results run @ results s1))"
    by simp
next
  assume h: "get_info (probes io) = Inr info \<and> \<not> suite_stop sch0 \<and> \<not> stop (scheduler sch0)
      \<and> tests su \<noteq> []
      \<and> (\<forall>t\<in>set (tests su). cancelled_in_command cfg (attempt (schedule_r io 0) t))"
  let ?s = "fire (Suite_started su) (scheduler sch0)"
  let ?sch = "sch0\<lparr>scheduler := ?s\<rparr>"
  have "\<not> stop ?s" using h by simp
  with h schedule_cancelled [of "tests su" ?s cfg "schedule_r io 0"] obtain s1 where
    s1: "schedule cfg (schedule_r io 0) (tests su) ?s = (s1, Some CancelledError)"
      "results s1 = []"
    by auto
  have a: "\<not> suite_stop ?sch" using h by simp
  have b: "tests_left (first_run su) \<noteq> []" using h by (simp add: first_run_def)
  have c: "schedule cfg (schedule_r io 0) (tests_left (first_run su)) (scheduler ?sch)
             = (s1, Some CancelledError)"
    using s1 by (simp add: first_run_def)
  have d: "wait_for_schedule (Some CancelledError) = Some TimeoutError"
    by (simp add: wait_for_schedule_def)
  have "suite_loop (Suc fuel) cfg io su 0 (first_run su) ?sch =
           Some ((first_run su)\<lparr>timed_out := True,
                     tests_results := tests_results (first_run su) @ results s1
                        @ map skipped_result
                            (not_found (tests su) (tests_results (first_run su) @ results s1)),
                     tests_left := []\<rparr>,
                 ?sch\<lparr>scheduler := fire (Suite_timeout su (suite_timeout cfg)) s1\<rparr>, None)"
    by (rule suite_loop_timeout [OF a b c d])
  with h s1 show "\<exists>sch' sr. run_suite (Suc fuel) cfg io su sch0 = Some (sch', None)
           \<and> suite_results sch' = suite_results sch0 @ [sr]
           \<and> sr_tests sr = map skipped_result (tests su)"
    by (simp add: run_suite_def Let_def first_run_def)
qed

text \<open>
  A suite of two tests on a SUT where the suite timeout expires while the first command
  runs: both tests get return code 32 and \<open>skipped = 1\<close>.
\<close>

theorem suite_timeout_skips_the_rest_witness:
  "(\<exists>run' sch'. suite_loop (Suc 0) host_cfg timeout_io two_tests 0 (first_run two_tests) fresh
                   = Some (run', sch', None)
      \<and> tests_left run' = [] \<and> map retcode (tests_results run') = [32, 32])
   \<and> (\<exists>sch' sr. run_suite (Suc 0) host_cfg timeout_io two_tests fresh = Some (sch', None)
      \<and> suite_results sch' = [sr]
      \<and> map (\<lambda>r. (name (test r), retcode r, skipped r)) (sr_tests sr)
          = [(''oom01'', 32, 1), (''oom02'', 32, 1)])"
proof -
  let ?info = "\<lparr>distro = ''alpine'', distro_ver = ''3.19'', kernel = ''Linux 6.6 #1 SMP'',
          arch = ''x86_64'', cpu = ''unknown'', ram = ''unknown'', swap = ''unkown''\<rparr>"
  have canc: "cancelled_in_command host_cfg cancelled_io"
    by (simp add: cancelled_in_command_def write_kmsg_def cancelled_io_def quiet_io_def
        wait_for_def host_cfg_def)
  have every: "\<forall>t\<in>set (tests two_tests).
      cancelled_in_command host_cfg (attempt (schedule_r timeout_io 0) t)"
    by (simp add: timeout_io_def in_order_def canc)
  have info: "get_info (probes timeout_io) = Inr ?info"
    by (simp add: timeout_io_def reboot_io_def get_info_no_meminfo)
  have ne: "tests two_tests \<noteq> []" by (simp add: two_tests_def)
  have ne': "tests_left (first_run two_tests) \<noteq> []" by (simp add: first_run_def two_tests_def)
  have ns: "\<not> suite_stop fresh" "\<not> stop (scheduler fresh)" by (simp_all add: fresh_def idle_def)
  from schedule_cancelled [OF ne ns(2) every] obtain s1 where
    s1: "schedule host_cfg (schedule_r timeout_io 0) (tests two_tests) (scheduler fresh)
           = (s1, Some CancelledError)" and r1: "results s1 = []"
    by blast
  from s1 have s1': "schedule host_cfg (schedule_r timeout_io 0) (tests_left (first_run two_tests))
           (scheduler fresh) = (s1, Some CancelledError)"
    by (simp add: first_run_def)
  have w: "wait_for_schedule (Some CancelledError) = Some TimeoutError"
    by (simp add: wait_for_schedule_def)
  note T = suite_timeout_skips_the_rest [of fresh "first_run two_tests" host_cfg timeout_io 0 s1
      "Some CancelledError" 0 two_tests ?info fresh]
  from T ns(1) ne' s1' w
  have "\<exists>run' sch'. suite_loop (Suc 0) host_cfg timeout_io two_tests 0 (first_run two_tests) fresh
                   = Some (run', sch', None)
      \<and> tests_left run' = []
      \<and> tests_results run' = tests_results (first_run two_tests) @ results s1
               @ map skipped_result
                   (not_found (tests two_tests) (tests_results (first_run two_tests) @ results s1))"
    by blast
  then obtain run' sch' where
    A: "suite_loop (Suc 0) host_cfg timeout_io two_tests 0 (first_run two_tests) fresh
          = Some (run', sch', None)" "tests_left run' = []"
      "tests_results run' = tests_results (first_run two_tests) @ results s1
               @ map skipped_result
                   (not_found (tests two_tests) (tests_results (first_run two_tests) @ results s1))"
    by blast
  have A3: "map retcode (tests_results run') = [32, 32]"
    unfolding A(3) r1 by (simp add: first_run_def two_tests_def skipped_result_def)
  from T info ns ne every
  have "\<exists>sch' sr. run_suite (Suc 0) host_cfg timeout_io two_tests fresh = Some (sch', None)
           \<and> suite_results sch' = suite_results fresh @ [sr]
           \<and> sr_tests sr = map skipped_result (tests two_tests)"
    by blast
  then obtain sch'' sr where
    B: "run_suite (Suc 0) host_cfg timeout_io two_tests fresh = Some (sch'', None)"
      "suite_results sch'' = suite_results fresh @ [sr]"
      "sr_tests sr = map skipped_result (tests two_tests)"
    by blast
  have B2: "suite_results sch'' = [sr]" using B(2) by (simp add: fresh_def)
  have B3: "map (\<lambda>r. (name (test r), retcode r, skipped r)) (sr_tests sr)
          = [(''oom01'', 32, 1), (''oom02'', 32, 1)]"
    unfolding B(3) by (simp add: two_tests_def mk_test_def skipped_result_def)
  show ?thesis
    by (intro conjI exI) (rule A(1) A(2) A3 B(1) B2 B3)+
qed

subsection \<open>The results of a suite whose run ends with an error\<close>

lemma schedule_tests_extends:
  assumes "schedule_tests cfg io su k run s = (run', s', r)"
  shows "tests_results run' = tests_results run @ results s'"
proof -
  obtain s1 raised where sc: "schedule cfg (schedule_r io k) (tests_left run) s = (s1, raised)"
    by (cases "schedule cfg (schedule_r io k) (tests_left run) s")
  obtain s2 r2 where rs: "restart_sut cfg io k s1 = (s2, r2)"
    by (cases "restart_sut cfg io k s1")
  have "results s2 = results s1 \<and> stop s2 = stop s1"
    using rs by (rule restart_sut_fields)
  with assms sc rs show ?thesis
    by (auto simp: schedule_tests_def split: option.splits if_splits)
qed

lemma suite_loop_error_results:
  "suite_loop fuel cfg io su k run sch = Some (run', sch', Some err) \<Longrightarrow>
   \<exists>earlier. tests_results run' = earlier @ results (scheduler sch')"
proof (induction fuel arbitrary: k run sch)
  case 0
  then show ?case by simp
next
  case (Suc fuel)
  show ?case
  proof (cases "suite_stop sch \<or> tests_left run = []")
    case True
    with Suc.prems show ?thesis by auto
  next
    case False
    obtain run1 s1 r1 where st: "schedule_tests cfg io su k run (scheduler sch) = (run1, s1, r1)"
      by (cases "schedule_tests cfg io su k run (scheduler sch)") auto
    show ?thesis
    proof (cases r1)
      case (Some err')
      with Suc.prems False st have "run' = run1" "scheduler sch' = s1" by auto
      with schedule_tests_extends [OF st] show ?thesis by auto
    next
      case None
      show ?thesis
      proof (cases "timed_out run1")
        case True
        with Suc.prems False st None show ?thesis by (auto simp: Let_def)
      next
        case nt: False
        with Suc.prems False st None
        have "suite_loop fuel cfg io su (Suc k)
                (run1\<lparr>tests_left := not_found (tests su) (tests_results run1)\<rparr>)
                (sch\<lparr>scheduler := s1\<rparr>) = Some (run', sch', Some err)"
          by (simp add: Let_def)
        from Suc.IH [OF this] show ?thesis .
      qed
    qed
  qed
qed

text \<open>
  Whatever the loop has collected at some point is still there, in front, when it ends,
  however it ends.
\<close>

lemma suite_loop_grows:
  "suite_loop fuel cfg io su k run sch = Some (run', sch', r) \<Longrightarrow>
   \<exists>later. tests_results run' = tests_results run @ later"
proof (induction fuel arbitrary: k run sch)
  case 0
  then show ?case by simp
next
  case (Suc fuel)
  show ?case
  proof (cases "suite_stop sch \<or> tests_left run = []")
    case True
    with Suc.prems show ?thesis by auto
  next
    case False
    obtain run1 s1 r1 where st: "schedule_tests cfg io su k run (scheduler sch) = (run1, s1, r1)"
      by (cases "schedule_tests cfg io su k run (scheduler sch)") auto
    note ext = schedule_tests_extends [OF st]
    show ?thesis
    proof (cases r1)
      case (Some err)
      with Suc.prems False st have "run' = run1" by auto
      with ext show ?thesis by simp
    next
      case None
      show ?thesis
      proof (cases "timed_out run1")
        case True
        with Suc.prems False st None
        have "tests_results run' = tests_results run1
                @ map skipped_result (not_found (tests su) (tests_results run1))"
          by (auto simp: Let_def)
        with ext show ?thesis by simp
      next
        case nt: False
        with Suc.prems False st None
        have "suite_loop fuel cfg io su (Suc k)
                (run1\<lparr>tests_left := not_found (tests su) (tests_results run1)\<rparr>)
                (sch\<lparr>scheduler := s1\<rparr>) = Some (run', sch', r)"
          by (simp add: Let_def)
        from Suc.IH [OF this] obtain later where
          "tests_results run' = tests_results run1 @ later"
          by auto
        with ext show ?thesis by simp
      qed
    qed
  qed
qed

text \<open>
  Claim C9, as amended. Let \<^verbatim>\<open>get_info\<close> return and let the loop end, with or without an
  exception. Then \<^verbatim>\<open>_run_suite\<close> ends with that same exception (or none), after it has
  built a \<^verbatim>\<open>SuiteResults\<close> of the suite with the results that the loop holds at its end,
  fired it as \<open>suite_completed\<close> (the last event fired) and appended it to the suite
  results. These results are all that were collected: every pass through the inner
  \<^verbatim>\<open>try\<close> statement, however it ends, appends the results that the scheduler holds; the
  results held at any point of the loop from which it goes on to this end (in any
  iteration, with any results collected before) are still there, in front; and when an
  exception left the loop, they end with those that the scheduler held when it was raised.
\<close>

theorem run_suite_keeps_partial_results:
  assumes "get_info (probes io) = Inr info"
    and "suite_loop fuel cfg io su 0 (first_run su)
           (sch\<lparr>scheduler := fire (Suite_started su) (scheduler sch)\<rparr>)
         = Some (run, sch1, raised)"
  shows "\<exists>sch2 sr t. run_suite fuel cfg io su sch = Some (sch2, raised)
           \<and> suite_results sch2 = suite_results sch @ [sr]
           \<and> fired (scheduler sch2) = fired (scheduler sch1) @ [Suite_completed sr t]
           \<and> suite sr = su \<and> sr_tests sr = tests_results run
           \<and> (raised \<noteq> None
                \<longrightarrow> (\<exists>earlier. tests_results run = earlier @ results (scheduler sch1)))
           \<and> (\<forall>fuel' k run0 sch0.
                 suite_loop fuel' cfg io su k run0 sch0 = Some (run, sch1, raised)
                 \<longrightarrow> (\<exists>later. sr_tests sr = tests_results run0 @ later))
           \<and> (\<forall>k run0 s0 run1 s1 r.
                 schedule_tests cfg io su k run0 s0 = (run1, s1, r)
                 \<longrightarrow> tests_results run1 = tests_results run0 @ results s1)"
proof -
  define t where
    "t = (if exec_times run = [] then suite_timeout cfg else sum_list (exec_times run))"
  define sr where
    "sr = \<lparr>suite = su, sr_tests = tests_results run, sr_distro = distro info,
           sr_distro_ver = distro_ver info, sr_kernel = kernel info, sr_arch = arch info,
           sr_cpu = cpu info, sr_swap = swap info, sr_ram = ram info\<rparr>"
  define sch2 where
    "sch2 = sch1\<lparr>scheduler := fire (Suite_completed sr t) (scheduler sch1),
                 suite_results := suite_results sch1 @ [sr]\<rparr>"
  from suite_loop_fields [OF assms(2)] have f: "suite_results sch1 = suite_results sch"
    by simp
  have e: "raised \<noteq> None
             \<longrightarrow> (\<exists>earlier. tests_results run = earlier @ results (scheduler sch1))"
  proof
    assume "raised \<noteq> None"
    then obtain err where "raised = Some err" by auto
    with assms(2) have "suite_loop fuel cfg io su 0 (first_run su)
           (sch\<lparr>scheduler := fire (Suite_started su) (scheduler sch)\<rparr>)
         = Some (run, sch1, Some err)"
      by simp
    then show "\<exists>earlier. tests_results run = earlier @ results (scheduler sch1)"
      by (rule suite_loop_error_results)
  qed
  have r: "run_suite fuel cfg io su sch = Some (sch2, raised)"
    by (simp add: run_suite_def Let_def assms sch2_def sr_def t_def)
  have a: "suite_results sch2 = suite_results sch @ [sr]" by (simp add: sch2_def f)
  have b: "fired (scheduler sch2) = fired (scheduler sch1) @ [Suite_completed sr t]"
    by (simp add: sch2_def fire_def)
  have c: "suite sr = su" and d: "sr_tests sr = tests_results run" by (simp_all add: sr_def)
  have g: "\<forall>fuel' k run0 sch0.
             suite_loop fuel' cfg io su k run0 sch0 = Some (run, sch1, raised)
             \<longrightarrow> (\<exists>later. sr_tests sr = tests_results run0 @ later)"
    unfolding d by (intro allI impI) (rule suite_loop_grows)
  have h: "\<forall>k run0 s0 run1 s1 r.
             schedule_tests cfg io su k run0 s0 = (run1, s1, r)
             \<longrightarrow> tests_results run1 = tests_results run0 @ results s1"
    by (intro allI impI) (rule schedule_tests_extends)
  show ?thesis
    by (rule exI [of _ sch2], rule exI [of _ sr], rule exI [of _ t])
      (intro conjI r a b c d e g h)
qed

lemma sut_name_host_cfg: "sut_name host_cfg = ''host''"
  by (simp add: host_cfg_def)

lemma relapse_first_iteration:
  "suite_loop (Suc (Suc 0)) host_cfg relapse_io two_tests 0 (first_run two_tests)
       (fresh\<lparr>scheduler := fire (Suite_started two_tests) (scheduler fresh)\<rparr>)
   = suite_loop (Suc 0) host_cfg relapse_io two_tests (Suc 0) relapse_run relapse_scheduler"
  by (simp add: schedule_tests_def schedule_def run_parallel_def run_test_panic
      restart_sut_def never_reconnects reconnects_at_once wait_for_schedule_def
      is_kernel_error_def first_run_def relapse_io_def reboot_io_def in_order_def two_tests_def
      mk_test_def fresh_def idle_def fire_def by_retcode_def not_found_def sut_name_host_cfg
      relapse_run_def relapse_scheduler_def Let_def)

lemma relapse_second_iteration:
  "\<exists>run sch1. suite_loop (Suc 0) host_cfg relapse_io two_tests (Suc 0) relapse_run
       relapse_scheduler
     = Some (run, sch1, Some (SUTError ''SUT is not replying''))
     \<and> result_names (tests_results run) = [''oom01'', ''oom02'']"
  by (simp add: schedule_tests_def schedule_def run_parallel_def run_test_panic
      restart_sut_def never_reconnects wait_for_schedule_def is_kernel_error_def
      relapse_io_def reboot_io_def in_order_def mk_test_def by_retcode_def
      relapse_run_def relapse_scheduler_def fire_def result_names_def Let_def)

text \<open>
  Both tests end with a kernel panic, and after the second one the SUT never comes back:
  \<^verbatim>\<open>SUTError\<close> leaves \<^verbatim>\<open>_run_suite\<close> in the second iteration, and the \<^verbatim>\<open>SuiteResults\<close>
  that is appended holds the result of the first iteration followed by that of the second.
\<close>

theorem run_suite_keeps_partial_results_witness:
  "\<exists>sch2 sr t later. run_suite (Suc (Suc 0)) host_cfg relapse_io two_tests fresh
                  = Some (sch2, Some (SUTError ''SUT is not replying''))
     \<and> suite_results sch2 = [sr]
     \<and> result_names (sr_tests sr) = [''oom01'', ''oom02'']
     \<and> sr_tests sr = [by_retcode (mk_test ''oom01'') ''Kernel panic'' (- 1) 2] @ later
     \<and> last (fired (scheduler sch2)) = Suite_completed sr t"
proof -
  have info: "get_info (probes relapse_io) =
     Inr \<lparr>distro = ''alpine'', distro_ver = ''3.19'', kernel = ''Linux 6.6 #1 SMP'',
          arch = ''x86_64'', cpu = ''unknown'', ram = ''unknown'', swap = ''unkown''\<rparr>"
    by (simp add: relapse_io_def reboot_io_def get_info_no_meminfo)
  from relapse_second_iteration obtain run sch1 where
    l2: "suite_loop (Suc 0) host_cfg relapse_io two_tests (Suc 0) relapse_run relapse_scheduler
        = Some (run, sch1, Some (SUTError ''SUT is not replying''))"
      and n: "result_names (tests_results run) = [''oom01'', ''oom02'']"
    by blast
  have l: "suite_loop (Suc (Suc 0)) host_cfg relapse_io two_tests 0 (first_run two_tests)
          (fresh\<lparr>scheduler := fire (Suite_started two_tests) (scheduler fresh)\<rparr>)
        = Some (run, sch1, Some (SUTError ''SUT is not replying''))"
    unfolding relapse_first_iteration by (rule l2)
  from run_suite_keeps_partial_results [OF info l] obtain sch2 sr t where
    r: "run_suite (Suc (Suc 0)) host_cfg relapse_io two_tests fresh
          = Some (sch2, Some (SUTError ''SUT is not replying''))"
      "suite_results sch2 = suite_results fresh @ [sr]"
      "fired (scheduler sch2) = fired (scheduler sch1) @ [Suite_completed sr t]"
      "sr_tests sr = tests_results run"
      "\<forall>fuel' k run0 sch0.
         suite_loop fuel' host_cfg relapse_io two_tests k run0 sch0
           = Some (run, sch1, Some (SUTError ''SUT is not replying''))
         \<longrightarrow> (\<exists>later. sr_tests sr = tests_results run0 @ later)"
    by (elim exE conjE) (rule that)
  from r(5) l2 have "\<exists>later. sr_tests sr = tests_results relapse_run @ later"
    by (elim allE impE)
  then obtain later where
    k: "sr_tests sr = [by_retcode (mk_test ''oom01'') ''Kernel panic'' (- 1) 2] @ later"
    by (auto simp: relapse_run_def)
  have a: "suite_results sch2 = [sr]" using r(2) by (simp add: fresh_def)
  have b: "last (fired (scheduler sch2)) = Suite_completed sr t" using r(3) by simp
  have c: "result_names (sr_tests sr) = [''oom01'', ''oom02'']" using r(4) n by simp
  show ?thesis
    by (rule exI [of _ sch2], rule exI [of _ sr], rule exI [of _ t], rule exI [of _ later])
      (intro conjI r(1) a c k b)
qed

text \<open>
  Claim C9 as stated fails: on a SUT that is not running, \<^verbatim>\<open>get_info\<close> raises
  \<^verbatim>\<open>SUTError\<close> before the outer \<^verbatim>\<open>try\<close> statement is entered. The suite run has started
  (\<open>suite_started\<close> is fired), and no \<^verbatim>\<open>SuiteResults\<close> is built, fired or appended.
\<close>

theorem run_suite_without_suite_results:
  "run_suite (Suc 0) host_cfg stopped_io two_tests fresh
     = Some (\<lparr>suite_results = [], suite_stop = False,
              scheduler = \<lparr>results = [], stop = False, fired = [Suite_started two_tests]\<rparr>\<rparr>,
             Some (SUTError ''SUT is not running''))"
  by (simp add: run_suite_def get_info_def run_cmd_def wait_for_def stopped_io_def
      not_running_def fresh_def idle_def fire_def Let_def)

end
